theory Spec2Isabelle
  imports Main
begin

section \<open>The workerutil worker (internal/workerutil/worker.go)\<close>

text \<open>
  The worker runs three kinds of goroutines over shared state: the dequeue loop of
  \<open>Start\<close>, the heartbeat loop that \<open>Start\<close> spawns, and one handler goroutine per
  dequeued record. The model is an interleaving semantics: a record holds the fields of
  the Go struct together with the program position and the local variables of every
  goroutine, and \<open>step\<close> executes one atomic piece of one goroutine. Whatever the
  store, the handler, the clocks and the callers of the public methods decide is part
  of the action label, so a schedule (an action list) fixes one execution and
  \<open>run\<close> computes it. Every store call, hook call, semaphore operation and log line
  is appended to a trace together with the goroutine that made it.
\<close>

subsection \<open>Errors\<close>

text \<open>
  Go errors are values; \<open>nil\<close> is \<open>None\<close>. The constructors are the errors this file
  creates or tests for: the two context errors, \<open>ErrJobAlreadyExists\<close>, an error made
  by \<open>errors.New\<close>, \<open>errors.Wrap\<close>, and an error carrying the non-retryable flag.
\<close>

datatype error =
    ContextCanceled
  | DeadlineExceeded
  | ErrJobAlreadyExists
  | ErrorNew string
  | Wrap error string
  | NonRetryable error

text \<open>The message of an error. \<open>errors.Wrap\<close> puts its message and a colon before
  the message of the wrapped error, and nothing when its message is empty.\<close>

fun Error :: "error \<Rightarrow> string" where
  "Error ContextCanceled = ''context canceled''"
| "Error DeadlineExceeded = ''context deadline exceeded''"
| "Error ErrJobAlreadyExists = ''job already exists''"
| "Error (ErrorNew m) = m"
| "Error (Wrap e m) = (if m = [] then Error e else m @ '': '' @ Error e)"
| "Error (NonRetryable e) = Error e"

text \<open>\<open>errors.Is\<close> of the errors library: the reference is compared with every error
  of the chain; a nil reference matches only a nil error.\<close>

fun in_chain :: "error \<Rightarrow> error \<Rightarrow> bool" where
  "in_chain (Wrap e m) r = (Wrap e m = r \<or> in_chain e r)"
| "in_chain (NonRetryable e) r = (NonRetryable e = r \<or> in_chain e r)"
| "in_chain e r = (e = r)"

definition errors_Is :: "error option \<Rightarrow> error option \<Rightarrow> bool" where
  "errors_Is err reference =
     (case reference of
        None \<Rightarrow> err = None
      | Some r \<Rightarrow> (case err of None \<Rightarrow> False | Some e \<Rightarrow> in_chain e r))"

text \<open>Modelled from the spec: \<open>errcode.IsNonRetryable\<close> (internal/errcode, not among
  the sources) is true of "an error flagged non-retryable"; the flag is looked for along
  the chain of wrapped errors, and a nil error has none.\<close>

fun flagged :: "error \<Rightarrow> bool" where
  "flagged (NonRetryable e) = True"
| "flagged (Wrap e m) = flagged e"
| "flagged e = False"

definition IsNonRetryable :: "error option \<Rightarrow> bool" where
  "IsNonRetryable err = (case err of None \<Rightarrow> False | Some e \<Rightarrow> flagged e)"

subsection \<open>The set of running job ids\<close>

type_synonym record_id = int

text \<open>Modelled from the spec: \<open>IDSet\<close> (id_set.go, not among the sources) is the
  in-flight registry of section 4.1: ids, each with the cancel function of its handler
  context. A cancel function is named by the index of the handler goroutine whose
  context it cancels. \<open>Add\<close> returns false if the id is already present, \<open>Remove\<close>
  is idempotent, \<open>Cancel\<close> fires the trigger and keeps the entry, \<open>Slice\<close> is a
  snapshot of the ids.\<close>

type_synonym IDSet = "(record_id \<times> nat) list"

definition IDSet_Has :: "IDSet \<Rightarrow> record_id \<Rightarrow> bool" where
  "IDSet_Has ids i = (map_of ids i \<noteq> None)"

definition IDSet_Add :: "IDSet \<Rightarrow> record_id \<Rightarrow> nat \<Rightarrow> IDSet \<times> bool" where
  "IDSet_Add ids i cancel = (if IDSet_Has ids i then (ids, False) else (ids @ [(i, cancel)], True))"

definition IDSet_Remove :: "IDSet \<Rightarrow> record_id \<Rightarrow> IDSet" where
  "IDSet_Remove ids i = filter (\<lambda>p. fst p \<noteq> i) ids"

definition IDSet_Slice :: "IDSet \<Rightarrow> record_id list" where
  "IDSet_Slice ids = map fst ids"

definition IDSet_Cancel :: "IDSet \<Rightarrow> record_id \<Rightarrow> nat option" where
  "IDSet_Cancel ids i = map_of ids i"

subsection \<open>The worker and its goroutines\<close>

record WorkerOptions =
  Name :: string
  WorkerHostname :: string
  NumHandlers :: int
  NumTotalJobs :: int
  MaxActiveTime :: int
  Interval :: int
  HeartbeatInterval :: int

text \<open>Program positions. The dequeue loop: before \<open>Start\<close>; at the head of the loop
  (line 158); in the \<open>select\<close> of \<open>dequeueAndHandle\<close> (224); before the pre-dequeue
  hook (241), \<open>store.Dequeue\<close> (251), the registration (260) and \<open>PreHandle\<close> (269), all
  four holding a semaphore slot; in the \<open>select\<close> that ends an iteration (187); in
  \<open>wg.Wait\<close> (198); returned.\<close>

datatype main_pc =
  MNew | MLoopTop | MAcquire | MPreDequeue | MDequeue | MRegister | MPreHandle | MSelect | MWait | MFinished

text \<open>The heartbeat goroutine: not started; in its \<open>select\<close> (122); inside
  \<open>store.Heartbeat\<close> with the snapshot taken (129); returned.\<close>

datatype hb_pc = HBNew | HBWait | HBCall | HBExit

text \<open>A handler goroutine: its context exists and the id is registered, but the
  goroutine is not spawned yet (262 to 273); spawned (275); inside \<open>Handler.Handle\<close>
  (305); \<open>Handle\<close> has returned and the terminal call comes next (307); in the deferred
  function before \<open>PostHandle\<close> (277); before the send to the semaphore (287); before
  \<open>wg.Done\<close> (288); before the deferred \<open>runningIDSet.Remove\<close> (285); exited.\<close>

datatype handler_pc =
  HCreated | HStart | HInHandle | HMark | HCleanup | HRelease | HWgDone | HRemove | HDone

record handler =
  hrecord :: record_id
  hpc :: handler_pc
  handleCtx :: "error option"
  handleErr :: "error option"

datatype ctx_id = RootCtx | HandleCtx nat

datatype thread = MainLoop | HeartbeatLoop | Handler nat

datatype event =
    SemAcquire
  | SemRelease
  | CallPreDequeue ctx_id
  | CallDequeue ctx_id string "nat option" record_id bool "error option"
  | RegistryAdd record_id bool
  | RegistryRemove record_id
  | CallPreHandle ctx_id record_id
  | CallHandle ctx_id record_id
  | CallMarkComplete ctx_id record_id
  | CallMarkErrored ctx_id record_id string
  | CallMarkFailed ctx_id record_id string
  | CallPostHandle ctx_id record_id
  | CallHeartbeat ctx_id "record_id list"
  | WgDone
  | Log string

text \<open>The struct \<open>Worker\<close>. \<open>ctx\<close> is \<open>w.ctx.Err()\<close>; \<open>handlerSemaphore\<close> is the number
  of values in the channel's buffer; \<open>finished\<close> says that the channel is closed. The
  handler's optional interfaces are two flags. \<open>extraDequeueArguments\<close>, \<open>cur_record\<close> (the variable \<open>record\<close>),
  \<open>delay\<close>, \<open>reason\<close> and \<open>ids\<close> are local variables of the two loops.\<close>

record Worker =
  options :: WorkerOptions
  withPreDequeue :: bool
  withHooks :: bool
  numDequeues :: int
  handlerSemaphore :: nat
  ctx :: "error option"
  wg :: nat
  finished :: bool
  runningIDSet :: IDSet
  numJobs :: int
  main :: main_pc
  extraDequeueArguments :: "nat option"
  cur_record :: record_id
  delay :: int
  reason :: string
  heartbeat :: hb_pc
  ids :: "record_id list"
  handlers :: "handler list"
  trace :: "(thread \<times> event) list"

datatype panic = NoNameSupplied | ChanSizeOutOfRange

text \<open>The context given to \<open>NewWorker\<close> and its \<open>Err()\<close>.\<close>

datatype parent_ctx = Live | Cancelled | Expired

fun parent_Err :: "parent_ctx \<Rightarrow> error option" where
  "parent_Err Live = None"
| "parent_Err Cancelled = Some ContextCanceled"
| "parent_Err Expired = Some DeadlineExceeded"

text \<open>\<open>newWorker\<close> (lines 82 to 111). The parent context may already be done, then
  so is the root context derived from it. \<open>make\<close> panics on a negative buffer size.\<close>

definition newWorker :: "parent_ctx \<Rightarrow> bool \<Rightarrow> bool \<Rightarrow> string \<Rightarrow> WorkerOptions \<Rightarrow> panic + Worker" where
  "newWorker parent preDequeue hooks hostname_Get opts =
     (if Name opts = [] then Inl NoNameSupplied
      else if NumHandlers opts < 0 then Inl ChanSizeOutOfRange
      else Inr \<lparr>
        options = (if WorkerHostname opts = [] then opts\<lparr>WorkerHostname := hostname_Get\<rparr> else opts),
        withPreDequeue = preDequeue,
        withHooks = hooks,
        numDequeues = 0,
        handlerSemaphore = nat (NumHandlers opts),
        ctx = parent_Err parent,
        wg = 0,
        finished = False,
        runningIDSet = [],
        numJobs = 0,
        main = MNew,
        extraDequeueArguments = None,
        cur_record = 0,
        delay = 0,
        reason = [],
        heartbeat = HBNew,
        ids = [],
        handlers = [],
        trace = []\<rparr>)"

definition capacity :: "Worker \<Rightarrow> nat" where
  "capacity w = nat (NumHandlers (options w))"

definition emit :: "thread \<Rightarrow> event \<Rightarrow> Worker \<Rightarrow> Worker" where
  "emit t e w = w\<lparr>trace := trace w @ [(t, e)]\<rparr>"

definition get_handler :: "Worker \<Rightarrow> nat \<Rightarrow> handler option" where
  "get_handler w h = (if h < length (handlers w) then Some (handlers w ! h) else None)"

definition set_hpc :: "nat \<Rightarrow> handler_pc \<Rightarrow> Worker \<Rightarrow> Worker" where
  "set_hpc h p w =
     (if h < length (handlers w) then w\<lparr>handlers := (handlers w)[h := (handlers w ! h)\<lparr>hpc := p\<rparr>]\<rparr> else w)"

text \<open>Cancelling a context sets its error unless it has one already. Cancelling the
  root context reaches every handler context that is not done yet.\<close>

definition cancel_handleCtx :: "error \<Rightarrow> handler \<Rightarrow> handler" where
  "cancel_handleCtx e hr = (if handleCtx hr = None then hr\<lparr>handleCtx := Some e\<rparr> else hr)"

definition cancel_ctx :: "error \<Rightarrow> Worker \<Rightarrow> Worker" where
  "cancel_ctx e w =
     (if ctx w \<noteq> None then w
      else w\<lparr>ctx := Some e, handlers := map (cancel_handleCtx e) (handlers w)\<rparr>)"

text \<open>\<open>w.cancel\<close>, \<open>Wait\<close> (line 210) and \<open>Stop\<close> (line 204). A receive from
  \<open>w.finished\<close> returns once the channel is closed; \<open>None\<close> says that the caller is
  blocked in this state.\<close>

definition cancel :: "Worker \<Rightarrow> Worker" where
  "cancel w = cancel_ctx ContextCanceled w"

definition Wait :: "Worker \<Rightarrow> Worker option" where
  "Wait w = (if finished w then Some w else None)"

definition Stop :: "Worker \<Rightarrow> Worker option" where
  "Stop w = Wait (cancel w)"

text \<open>\<open>Cancel\<close> (line 216).\<close>

definition Cancel :: "record_id \<Rightarrow> Worker \<Rightarrow> Worker" where
  "Cancel i w =
     (case IDSet_Cancel (runningIDSet w) i of
        None \<Rightarrow> w
      | Some h \<Rightarrow>
          (if h < length (handlers w)
           then w\<lparr>handlers := (handlers w)[h := cancel_handleCtx ContextCanceled (handlers w ! h)]\<rparr>
           else w))"

text \<open>\<open>isJobCanceled\<close> (line 334) and \<open>preDequeueHook\<close> (line 339); the second takes
  what the handler's \<open>PreDequeue\<close> would answer.\<close>

definition isJobCanceled :: "Worker \<Rightarrow> record_id \<Rightarrow> error option \<Rightarrow> error option \<Rightarrow> bool" where
  "isJobCanceled w i handleErr' ctxErr = (errors_Is handleErr' ctxErr \<and> IDSet_Has (runningIDSet w) i)"

definition preDequeueHook :: "Worker \<Rightarrow> bool \<times> nat option \<times> error option \<Rightarrow> bool \<times> nat option \<times> error option" where
  "preDequeueHook w answer = (if withPreDequeue w then answer else (True, None, None))"

text \<open>The end of the loop of \<open>Start\<close>: line 197 and the move to \<open>wg.Wait\<close>.\<close>

definition exit_loop :: "Worker \<Rightarrow> Worker" where
  "exit_loop w = (emit MainLoop (Log ''Shutting down dequeue loop'') w)\<lparr>main := MWait\<rparr>"

text \<open>Lines 164 to 185 of \<open>Start\<close>: what the loop does with the two results of
  \<open>dequeueAndHandle\<close>, up to the \<open>select\<close> that ends the iteration.\<close>

definition after_dequeueAndHandle :: "bool \<Rightarrow> error option \<Rightarrow> Worker \<Rightarrow> Worker" where
  "after_dequeueAndHandle ok err w =
     (if err \<noteq> None \<and> ctx w \<noteq> None \<and> errors_Is err (ctx w) then exit_loop w
      else
        (let w1 = (if err \<noteq> None then emit MainLoop (Log ''Failed to dequeue and handle record'') w else w)
         in w1\<lparr>delay := (if ok then 0 else Interval (options w1)),
               numDequeues := (if ok then numDequeues w1 + 1 else numDequeues w1),
               main := MSelect\<rparr>))"

text \<open>A return of \<open>dequeueAndHandle\<close> once the deferred function of line 231 is in
  place: a result \<open>dequeued = false\<close> sends the slot back first. The send blocks while
  the buffer is full.\<close>

definition dequeueAndHandle_return :: "bool \<Rightarrow> error option \<Rightarrow> Worker \<Rightarrow> Worker option" where
  "dequeueAndHandle_return dequeued err w =
     (if dequeued then Some (after_dequeueAndHandle True err w)
      else if handlerSemaphore w < capacity w
      then Some (after_dequeueAndHandle False err
                   (emit MainLoop SemRelease (w\<lparr>handlerSemaphore := handlerSemaphore w + 1\<rparr>)))
      else None)"

text \<open>Lines 130 to 143 of the heartbeat loop, after \<open>store.Heartbeat\<close> has answered
  \<open>(knownIDs, err)\<close> for the snapshot \<open>ids\<close>.\<close>

definition remove_unknown :: "record_id list \<Rightarrow> record_id \<Rightarrow> Worker \<Rightarrow> Worker" where
  "remove_unknown knownIDs i w =
     (if i \<in> set knownIDs then w
      else (emit HeartbeatLoop (Log ''Removed unknown job from running set'') w)
             \<lparr>runningIDSet := IDSet_Remove (runningIDSet w) i\<rparr>)"

definition heartbeat_reconcile :: "record_id list \<Rightarrow> error option \<Rightarrow> Worker \<Rightarrow> Worker" where
  "heartbeat_reconcile knownIDs err w =
     fold (remove_unknown knownIDs) (ids w)
       (if err \<noteq> None then emit HeartbeatLoop (Log ''Failed to refresh heartbeats'') w else w)"

text \<open>Lines 307 to 328 of \<open>handle\<close>, for handler \<open>h\<close> whose \<open>Handle\<close> has returned
  \<open>handleErr\<close>: the terminal store call, made with \<open>w.ctx\<close>, and the log line that
  follows the store's answer \<open>(marked, markErr)\<close>. \<open>handle\<close> returns the wrapped
  \<open>markErr\<close> and the goroutine logs it (line 292). The first branch calls
  \<open>handleErr.Error()\<close>; a nil \<open>handleErr\<close> there would be a nil dereference.\<close>

definition log_marked :: "nat \<Rightarrow> bool \<Rightarrow> error option \<Rightarrow> string \<Rightarrow> Worker \<Rightarrow> Worker" where
  "log_marked h marked markErr msg w =
     (if markErr \<noteq> None then emit (Handler h) (Log ''Failed to finalize record'') w
      else emit (Handler h) (Log ''Handled record'')
             (if marked then emit (Handler h) (Log msg) w else w))"

definition handle_mark :: "nat \<Rightarrow> handler \<Rightarrow> bool \<Rightarrow> error option \<Rightarrow> Worker \<Rightarrow> Worker option" where
  "handle_mark h hr marked markErr w =
     (if IsNonRetryable (handleErr hr)
         \<or> (handleErr hr \<noteq> None \<and> isJobCanceled w (hrecord hr) (handleErr hr) (handleCtx hr))
      then (case handleErr hr of
              None \<Rightarrow> None
            | Some e \<Rightarrow> Some (log_marked h marked markErr ''Marked record as failed''
                               (emit (Handler h) (CallMarkFailed RootCtx (hrecord hr) (Error e)) w)))
      else if handleErr hr \<noteq> None
      then (case handleErr hr of
              None \<Rightarrow> None
            | Some e \<Rightarrow> Some (log_marked h marked markErr ''Marked record as errored''
                               (emit (Handler h) (CallMarkErrored RootCtx (hrecord hr) (Error e)) w)))
      else Some (log_marked h marked markErr ''Marked record as complete''
                   (emit (Handler h) (CallMarkComplete RootCtx (hrecord hr)) w)))"

subsection \<open>One step of one goroutine\<close>

datatype action =
    AStart
  | ALoopTop
  | AAcquireSlot
  | AAcquireCtxDone
  | APreDequeue bool "nat option" "error option"
  | ADequeue record_id bool "error option"
  | ARegister
  | APreHandle
  | ADelayElapsed
  | ASelectCtxDone
  | AShutdownTimer
  | AWgWait
  | AHeartbeatCtxDone
  | AHeartbeatTick
  | AHeartbeatReturn "record_id list" "error option"
  | ACallHandle nat
  | AHandleReturn nat "error option"
  | AMark nat bool "error option"
  | APostHandle nat
  | AReleaseSlot nat
  | ARendezvous nat
  | AWgDone nat
  | ARegistryRemove nat
  | AStop
  | ACancel record_id
  | AParentDone parent_ctx

text \<open>
  \<open>step a w\<close> is \<open>None\<close> when the goroutine of \<open>a\<close> is not at that position or is
  blocked there. The clauses, in the order of the source:
  \<^item> \<open>AStart\<close>: \<open>Start\<close> is called; the heartbeat goroutine starts (114 to 154).
  \<^item> \<open>ALoopTop\<close>: the check of \<open>NumTotalJobs\<close> (158 to 161).
  \<^item> \<open>AAcquireSlot\<close>, \<open>AAcquireCtxDone\<close>: the two cases of the \<open>select\<close> of
    \<open>dequeueAndHandle\<close> (224 to 230); the second returns before the deferred function
    of line 231 exists.
  \<^item> \<open>APreDequeue\<close>: the pre-dequeue hook with its answer (241 to 248).
  \<^item> \<open>ADequeue\<close>: \<open>store.Dequeue\<close> with its answer (251 to 258).
  \<^item> \<open>ARegister\<close>: the handler context and \<open>runningIDSet.Add\<close> (260 to 267).
  \<^item> \<open>APreHandle\<close>: \<open>PreHandle\<close>, \<open>wg.Add(1)\<close>, the \<open>go\<close> statement and
    \<open>return true, nil\<close> (269 to 296).
  \<^item> \<open>ADelayElapsed\<close>, \<open>ASelectCtxDone\<close>, \<open>AShutdownTimer\<close>: the cases of the
    \<open>select\<close> of lines 187 to 194; \<open>shutdownChan\<close> can fire only if
    \<open>MaxActiveTime > 0\<close> (148 to 152).
  \<^item> \<open>AWgWait\<close>: \<open>wg.Wait\<close> returns, \<open>Start\<close> returns and the deferred
    \<open>close(w.finished)\<close> runs (198, 115).
  \<^item> \<open>AHeartbeatCtxDone\<close>, \<open>AHeartbeatTick\<close>, \<open>AHeartbeatReturn\<close>: the heartbeat loop
    (121 to 144).
  \<^item> \<open>ACallHandle\<close>, \<open>AHandleReturn\<close>, \<open>AMark\<close>: \<open>handle\<close> (301 to 329).
  \<^item> \<open>APostHandle\<close>: \<open>PostHandle\<close> and \<open>numJobs.Dec\<close> (277 to 286).
  \<^item> \<open>AReleaseSlot\<close>: the send of line 287 into a buffer that is not full;
    \<open>ARendezvous\<close>: the same send on a channel without buffer, taken by the
    \<open>select\<close> of line 227.
  \<^item> \<open>AWgDone\<close>: line 288. \<open>ARegistryRemove\<close>: the \<open>Remove\<close> deferred in line 285,
    which runs when the deferred function returns.
  \<^item> \<open>AStop\<close>: the \<open>w.cancel()\<close> of \<open>Stop\<close>; \<open>ACancel\<close>: \<open>Cancel\<close>;
    \<open>AParentDone\<close>: the context given to \<open>NewWorker\<close> is cancelled or times out.
\<close>

fun step :: "action \<Rightarrow> Worker \<Rightarrow> Worker option" where
  "step AStart w =
     (if main w = MNew then Some (w\<lparr>main := MLoopTop, heartbeat := HBWait\<rparr>) else None)"
| "step ALoopTop w =
     (if main w \<noteq> MLoopTop then None
      else if NumTotalJobs (options w) \<noteq> 0 \<and> numDequeues w \<ge> NumTotalJobs (options w)
      then Some (exit_loop (w\<lparr>reason := ''NumTotalJobs dequeued''\<rparr>))
      else Some (w\<lparr>main := MAcquire\<rparr>))"
| "step AAcquireSlot w =
     (if main w = MAcquire \<and> 0 < handlerSemaphore w
      then Some (emit MainLoop SemAcquire (w\<lparr>handlerSemaphore := handlerSemaphore w - 1, main := MPreDequeue\<rparr>))
      else None)"
| "step AAcquireCtxDone w =
     (if main w = MAcquire \<and> ctx w \<noteq> None then Some (after_dequeueAndHandle False (ctx w) w) else None)"
| "step (APreDequeue dequeueable extra err) w =
     (if main w \<noteq> MPreDequeue then None
      else
        (case preDequeueHook w (dequeueable, extra, err) of
           (dequeueable', extra', err') \<Rightarrow>
             (let w1 = (if withPreDequeue w then emit MainLoop (CallPreDequeue RootCtx) w else w)
              in case err' of
                   Some e \<Rightarrow> dequeueAndHandle_return False (Some (Wrap e ''Handler.PreDequeueHook'')) w1
                 | None \<Rightarrow>
                     if \<not> dequeueable' then dequeueAndHandle_return False None w1
                     else Some (w1\<lparr>extraDequeueArguments := extra', main := MDequeue\<rparr>))))"
| "step (ADequeue r dequeued err) w =
     (if main w \<noteq> MDequeue then None
      else
        (let w1 = emit MainLoop
                    (CallDequeue RootCtx (WorkerHostname (options w)) (extraDequeueArguments w) r dequeued err) w
         in case err of
              Some e \<Rightarrow> dequeueAndHandle_return False (Some (Wrap e ''store.Dequeue'')) w1
            | None \<Rightarrow>
                if \<not> dequeued then dequeueAndHandle_return False None w1
                else Some (w1\<lparr>cur_record := r, main := MRegister\<rparr>)))"
| "step ARegister w =
     (if main w \<noteq> MRegister then None
      else
        (case IDSet_Add (runningIDSet w) (cur_record w) (length (handlers w)) of
           (set', added) \<Rightarrow>
             (let w1 = emit MainLoop (RegistryAdd (cur_record w) added) w
              in if \<not> added then dequeueAndHandle_return False (Some ErrJobAlreadyExists) w1
                 else Some (w1\<lparr>runningIDSet := set',
                               handlers := handlers w @
                                 [\<lparr>hrecord = cur_record w, hpc = HCreated, handleCtx = ctx w, handleErr = None\<rparr>],
                               numJobs := numJobs w + 1,
                               main := MPreHandle\<rparr>))))"
| "step APreHandle w =
     (if main w \<noteq> MPreHandle then None
      else
        (let h = length (handlers w) - 1;
             w1 = (if withHooks w then emit MainLoop (CallPreHandle (HandleCtx h) (cur_record w)) w else w)
         in dequeueAndHandle_return True None (set_hpc h HStart (w1\<lparr>wg := wg w1 + 1\<rparr>))))"
| "step ADelayElapsed w = (if main w = MSelect then Some (w\<lparr>main := MLoopTop\<rparr>) else None)"
| "step ASelectCtxDone w = (if main w = MSelect \<and> ctx w \<noteq> None then Some (exit_loop w) else None)"
| "step AShutdownTimer w =
     (if main w = MSelect \<and> 0 < MaxActiveTime (options w)
      then Some (exit_loop (w\<lparr>reason := ''MaxActiveTime elapsed''\<rparr>))
      else None)"
| "step AWgWait w =
     (if main w = MWait \<and> wg w = 0 then Some (w\<lparr>main := MFinished, finished := True\<rparr>) else None)"
| "step AHeartbeatCtxDone w =
     (if heartbeat w = HBWait \<and> ctx w \<noteq> None then Some (w\<lparr>heartbeat := HBExit\<rparr>) else None)"
| "step AHeartbeatTick w =
     (if heartbeat w = HBWait
      then Some (emit HeartbeatLoop (CallHeartbeat RootCtx (IDSet_Slice (runningIDSet w)))
                   (w\<lparr>ids := IDSet_Slice (runningIDSet w), heartbeat := HBCall\<rparr>))
      else None)"
| "step (AHeartbeatReturn knownIDs err) w =
     (if heartbeat w = HBCall then Some ((heartbeat_reconcile knownIDs err w)\<lparr>heartbeat := HBWait\<rparr>) else None)"
| "step (ACallHandle h) w =
     (case get_handler w h of
        None \<Rightarrow> None
      | Some hr \<Rightarrow>
          if hpc hr = HStart
          then Some (set_hpc h HInHandle (emit (Handler h) (CallHandle (HandleCtx h) (hrecord hr)) w))
          else None)"
| "step (AHandleReturn h e) w =
     (case get_handler w h of
        None \<Rightarrow> None
      | Some hr \<Rightarrow>
          if hpc hr = HInHandle
          then Some (w\<lparr>handlers := (handlers w)[h := hr\<lparr>handleErr := e, hpc := HMark\<rparr>]\<rparr>)
          else None)"
| "step (AMark h marked markErr) w =
     (case get_handler w h of
        None \<Rightarrow> None
      | Some hr \<Rightarrow>
          if hpc hr = HMark then map_option (set_hpc h HCleanup) (handle_mark h hr marked markErr w)
          else None)"
| "step (APostHandle h) w =
     (case get_handler w h of
        None \<Rightarrow> None
      | Some hr \<Rightarrow>
          if hpc hr = HCleanup
          then Some (set_hpc h HRelease
                  ((if withHooks w then emit (Handler h) (CallPostHandle RootCtx (hrecord hr)) w else w)
                     \<lparr>numJobs := numJobs w - 1\<rparr>))
          else None)"
| "step (AReleaseSlot h) w =
     (case get_handler w h of
        None \<Rightarrow> None
      | Some hr \<Rightarrow>
          if hpc hr = HRelease \<and> handlerSemaphore w < capacity w
          then Some (set_hpc h HWgDone
                  (emit (Handler h) SemRelease (w\<lparr>handlerSemaphore := handlerSemaphore w + 1\<rparr>)))
          else None)"
| "step (ARendezvous h) w =
     (case get_handler w h of
        None \<Rightarrow> None
      | Some hr \<Rightarrow>
          if hpc hr = HRelease \<and> capacity w = 0 \<and> main w = MAcquire
          then Some (set_hpc h HWgDone
                  (emit MainLoop SemAcquire (emit (Handler h) SemRelease (w\<lparr>main := MPreDequeue\<rparr>))))
          else None)"
| "step (AWgDone h) w =
     (case get_handler w h of
        None \<Rightarrow> None
      | Some hr \<Rightarrow>
          if hpc hr = HWgDone \<and> 0 < wg w
          then Some (set_hpc h HRemove (emit (Handler h) WgDone (w\<lparr>wg := wg w - 1\<rparr>)))
          else None)"
| "step (ARegistryRemove h) w =
     (case get_handler w h of
        None \<Rightarrow> None
      | Some hr \<Rightarrow>
          if hpc hr = HRemove
          then Some (set_hpc h HDone
                  (emit (Handler h) (RegistryRemove (hrecord hr))
                     (w\<lparr>runningIDSet := IDSet_Remove (runningIDSet w) (hrecord hr)\<rparr>)))
          else None)"
| "step AStop w = Some (cancel w)"
| "step (ACancel i) w = Some (Cancel i w)"
| "step (AParentDone p) w =
     (case parent_Err p of None \<Rightarrow> None | Some e \<Rightarrow> Some (cancel_ctx e w))"

fun run :: "action list \<Rightarrow> Worker \<Rightarrow> Worker option" where
  "run [] w = Some w"
| "run (a # as) w = (case step a w of None \<Rightarrow> None | Some w' \<Rightarrow> run as w')"

subsection \<open>Observations of a state\<close>

text \<open>The dequeue loop holds a semaphore slot from the receive of line 227 until
  \<open>dequeueAndHandle\<close> returns. A handler goroutine counts as running from the \<open>go\<close>
  statement until its send of line 287: \<open>Handle\<close>, the terminal store call and
  \<open>PostHandle\<close> all happen in between.\<close>

definition holds_slot :: "main_pc \<Rightarrow> bool" where
  "holds_slot p = (p = MPreDequeue \<or> p = MDequeue \<or> p = MRegister \<or> p = MPreHandle)"

definition running_pc :: "handler_pc \<Rightarrow> bool" where
  "running_pc p = (p = HStart \<or> p = HInHandle \<or> p = HMark \<or> p = HCleanup \<or> p = HRelease)"

definition running_handlers :: "Worker \<Rightarrow> nat" where
  "running_handlers w = length (filter (running_pc \<circ> hpc) (handlers w))"

definition slots_accounted :: "Worker \<Rightarrow> bool" where
  "slots_accounted w =
     (handlerSemaphore w + (if holds_slot (main w) then 1 else 0) + running_handlers w = capacity w)"

definition created_last :: "Worker \<Rightarrow> bool" where
  "created_last w =
     ((\<forall>h < length (handlers w). hpc (handlers w ! h) = HCreated \<longrightarrow> main w = MPreHandle \<and> Suc h = length (handlers w))
      \<and> (main w = MPreHandle \<longrightarrow> handlers w \<noteq> [] \<and> hpc (last (handlers w)) = HCreated))"

text \<open>The \<open>WaitGroup\<close> counts a handler goroutine from \<open>wg.Add(1)\<close> to its
  \<open>wg.Done\<close>. A successful dequeue is a call of \<open>dequeueAndHandle\<close> that returns
  \<open>true\<close>, which is one that spawns a handler goroutine. The predicates after these are
  the invariants of the reachable states.\<close>

definition wg_pc :: "handler_pc \<Rightarrow> bool" where
  "wg_pc p = (running_pc p \<or> p = HWgDone)"

definition wg_handlers :: "Worker \<Rightarrow> nat" where
  "wg_handlers w = length (filter (wg_pc \<circ> hpc) (handlers w))"

definition spawned_pc :: "handler_pc \<Rightarrow> bool" where
  "spawned_pc p = (p \<noteq> HCreated)"

definition successful_dequeues :: "Worker \<Rightarrow> nat" where
  "successful_dequeues w = length (filter (spawned_pc \<circ> hpc) (handlers w))"

definition counters_ok :: "Worker \<Rightarrow> bool" where
  "counters_ok w = (wg w = wg_handlers w \<and> numDequeues w = int (successful_dequeues w))"

definition jobs_capped :: "Worker \<Rightarrow> bool" where
  "jobs_capped w =
     (0 < NumTotalJobs (options w) \<longrightarrow>
        numDequeues w \<le> NumTotalJobs (options w)
        \<and> (main w = MAcquire \<or> holds_slot (main w) \<longrightarrow> numDequeues w < NumTotalJobs (options w)))"

definition reason_ok :: "Worker \<Rightarrow> bool" where
  "reason_ok w =
     ((reason w = []
       \<or> (reason w = ''NumTotalJobs dequeued'' \<and> NumTotalJobs (options w) \<noteq> 0
            \<and> NumTotalJobs (options w) \<le> numDequeues w)
       \<or> (reason w = ''MaxActiveTime elapsed'' \<and> 0 < MaxActiveTime (options w)))
      \<and> (reason w \<noteq> [] \<longrightarrow> main w = MWait \<or> main w = MFinished))"

definition finished_ok :: "Worker \<Rightarrow> bool" where
  "finished_ok w = ((finished w \<longleftrightarrow> main w = MFinished) \<and> (main w = MFinished \<longrightarrow> wg w = 0))"

definition ctx_ok :: "Worker \<Rightarrow> bool" where
  "ctx_ok w = (ctx w = None \<or> ctx w = Some ContextCanceled \<or> ctx w = Some DeadlineExceeded)"

text \<open>The test of line 165: the loop of \<open>Start\<close> breaks without logging.\<close>

definition breaks_loop :: "error option \<Rightarrow> Worker \<Rightarrow> bool" where
  "breaks_loop err w = (err \<noteq> None \<and> ctx w \<noteq> None \<and> errors_Is err (ctx w))"

text \<open>Observations of the trace: the calls a handler goroutine has made (its events
  but the log lines, in order), the calls of the pre-dequeue hook and of \<open>store.Dequeue\<close>,
  and the terminal store calls.\<close>

fun is_log :: "event \<Rightarrow> bool" where
  "is_log (Log s) = True"
| "is_log e = False"

fun is_mark :: "event \<Rightarrow> bool" where
  "is_mark (CallMarkComplete c i) = True"
| "is_mark (CallMarkErrored c i m) = True"
| "is_mark (CallMarkFailed c i m) = True"
| "is_mark e = False"

fun mark_ctx :: "event \<Rightarrow> ctx_id option" where
  "mark_ctx (CallMarkComplete c i) = Some c"
| "mark_ctx (CallMarkErrored c i m) = Some c"
| "mark_ctx (CallMarkFailed c i m) = Some c"
| "mark_ctx e = None"

fun is_dequeue_call :: "event \<Rightarrow> bool" where
  "is_dequeue_call (CallPreDequeue c) = True"
| "is_dequeue_call (CallDequeue c host extra r d e) = True"
| "is_dequeue_call e = False"

definition hcalls :: "nat \<Rightarrow> (thread \<times> event) list \<Rightarrow> event list" where
  "hcalls h tr = filter (\<lambda>e. \<not> is_log e) (map snd (filter (\<lambda>x. fst x = Handler h) tr))"

definition dequeue_calls :: "(thread \<times> event) list \<Rightarrow> event list" where
  "dequeue_calls tr = filter is_dequeue_call (map snd tr)"

definition marks :: "(thread \<times> event) list \<Rightarrow> event list" where
  "marks tr = filter is_mark (map snd tr)"

subsection \<open>The effect of a step on the observations\<close>

text \<open>\<open>effect a w w'\<close> restates, action by action, what \<open>step a\<close> does to the
  program positions, the counters, the semaphore and the observed calls; \<open>step_effect\<close>
  below proves it of every step. The invariants are then proved from \<open>effect\<close>.\<close>

definition same_main :: "Worker \<Rightarrow> Worker \<Rightarrow> bool" where
  "same_main w w' = (main w' = main w \<and> numDequeues w' = numDequeues w \<and> reason w' = reason w
     \<and> finished w' = finished w)"

definition same_count :: "Worker \<Rightarrow> Worker \<Rightarrow> bool" where
  "same_count w w' = (numDequeues w' = numDequeues w \<and> reason w' = reason w \<and> finished w' = finished w)"

definition same_sync :: "Worker \<Rightarrow> Worker \<Rightarrow> bool" where
  "same_sync w w' = (handlerSemaphore w' = handlerSemaphore w \<and> wg w' = wg w)"

definition same_pcs :: "Worker \<Rightarrow> Worker \<Rightarrow> bool" where
  "same_pcs w w' = (map hpc (handlers w') = map hpc (handlers w)
     \<and> map hrecord (handlers w') = map hrecord (handlers w))"

definition same_calls :: "Worker \<Rightarrow> Worker \<Rightarrow> bool" where
  "same_calls w w' = ((\<forall>k. hcalls k (trace w') = hcalls k (trace w)) \<and> marks (trace w') = marks (trace w))"

definition same_dequeue_calls :: "Worker \<Rightarrow> Worker \<Rightarrow> bool" where
  "same_dequeue_calls w w' = (dequeue_calls (trace w') = dequeue_calls (trace w))"

definition returned_without :: "Worker \<Rightarrow> Worker \<Rightarrow> bool" where
  "returned_without w w' =
     ((main w' = MSelect \<or> main w' = MWait \<and> ctx w \<noteq> None) \<and> handlerSemaphore w < capacity w
      \<and> handlerSemaphore w' = handlerSemaphore w + 1 \<and> wg w' = wg w)"

definition moves :: "nat \<Rightarrow> handler_pc \<Rightarrow> handler_pc \<Rightarrow> Worker \<Rightarrow> Worker \<Rightarrow> bool" where
  "moves h p p' w w' =
     (h < length (handlers w) \<and> hpc (handlers w ! h) = p
      \<and> map hpc (handlers w') = (map hpc (handlers w))[h := p']
      \<and> map hrecord (handlers w') = map hrecord (handlers w))"

definition emits :: "nat \<Rightarrow> event list \<Rightarrow> Worker \<Rightarrow> Worker \<Rightarrow> bool" where
  "emits h es w w' =
     ((\<forall>k. hcalls k (trace w') = hcalls k (trace w) @ (if k = h then es else []))
      \<and> marks (trace w') = marks (trace w) @ filter is_mark es
      \<and> dequeue_calls (trace w') = dequeue_calls (trace w))"

fun effect :: "action \<Rightarrow> Worker \<Rightarrow> Worker \<Rightarrow> bool" where
  "effect AStart w w' =
     (main w = MNew \<and> main w' = MLoopTop \<and> same_count w w' \<and> same_sync w w' \<and> same_pcs w w'
      \<and> ctx w' = ctx w \<and> same_calls w w' \<and> same_dequeue_calls w w')"
| "effect ALoopTop w w' =
     (main w = MLoopTop
      \<and> (NumTotalJobs (options w) \<noteq> 0 \<and> NumTotalJobs (options w) \<le> numDequeues w
            \<and> main w' = MWait \<and> reason w' = ''NumTotalJobs dequeued''
          \<or> (NumTotalJobs (options w) = 0 \<or> numDequeues w < NumTotalJobs (options w))
            \<and> main w' = MAcquire \<and> reason w' = reason w)
      \<and> numDequeues w' = numDequeues w \<and> finished w' = finished w
      \<and> same_sync w w' \<and> same_pcs w w' \<and> ctx w' = ctx w \<and> same_calls w w' \<and> same_dequeue_calls w w')"
| "effect AAcquireSlot w w' =
     (main w = MAcquire \<and> main w' = MPreDequeue \<and> same_count w w'
      \<and> 0 < handlerSemaphore w \<and> handlerSemaphore w' = handlerSemaphore w - 1 \<and> wg w' = wg w
      \<and> same_pcs w w' \<and> ctx w' = ctx w \<and> same_calls w w' \<and> same_dequeue_calls w w')"
| "effect AAcquireCtxDone w w' =
     (main w = MAcquire \<and> ctx w \<noteq> None \<and> main w' = MWait \<and> same_count w w' \<and> same_sync w w'
      \<and> same_pcs w w' \<and> ctx w' = ctx w \<and> same_calls w w' \<and> same_dequeue_calls w w')"
| "effect (APreDequeue d x e) w w' =
     (main w = MPreDequeue \<and> same_count w w'
      \<and> (main w' = MDequeue \<and> same_sync w w' \<or> returned_without w w')
      \<and> same_pcs w w' \<and> ctx w' = ctx w \<and> same_calls w w'
      \<and> dequeue_calls (trace w') = dequeue_calls (trace w) @ (if withPreDequeue w then [CallPreDequeue RootCtx] else []))"
| "effect (ADequeue r d e) w w' =
     (main w = MDequeue \<and> same_count w w'
      \<and> (main w' = MRegister \<and> same_sync w w' \<and> cur_record w' = r \<or> returned_without w w')
      \<and> same_pcs w w' \<and> ctx w' = ctx w \<and> same_calls w w'
      \<and> dequeue_calls (trace w') = dequeue_calls (trace w)
            @ [CallDequeue RootCtx (WorkerHostname (options w)) (extraDequeueArguments w) r d e])"
| "effect ARegister w w' =
     (main w = MRegister \<and> same_count w w'
      \<and> (main w' = MPreHandle \<and> same_sync w w'
            \<and> map hpc (handlers w') = map hpc (handlers w) @ [HCreated]
            \<and> map hrecord (handlers w') = map hrecord (handlers w) @ [cur_record w]
          \<or> returned_without w w' \<and> same_pcs w w')
      \<and> ctx w' = ctx w \<and> same_calls w w' \<and> same_dequeue_calls w w')"
| "effect APreHandle w w' =
     (main w = MPreHandle \<and> main w' = MSelect \<and> numDequeues w' = numDequeues w + 1
      \<and> reason w' = reason w \<and> finished w' = finished w
      \<and> handlerSemaphore w' = handlerSemaphore w \<and> wg w' = wg w + 1
      \<and> map hpc (handlers w') = (map hpc (handlers w))[length (handlers w) - 1 := HStart]
      \<and> map hrecord (handlers w') = map hrecord (handlers w)
      \<and> ctx w' = ctx w \<and> same_calls w w' \<and> same_dequeue_calls w w')"
| "effect ADelayElapsed w w' =
     (main w = MSelect \<and> main w' = MLoopTop \<and> same_count w w' \<and> same_sync w w' \<and> same_pcs w w'
      \<and> ctx w' = ctx w \<and> same_calls w w' \<and> same_dequeue_calls w w')"
| "effect ASelectCtxDone w w' =
     (main w = MSelect \<and> ctx w \<noteq> None \<and> main w' = MWait \<and> same_count w w' \<and> same_sync w w'
      \<and> same_pcs w w' \<and> ctx w' = ctx w \<and> same_calls w w' \<and> same_dequeue_calls w w')"
| "effect AShutdownTimer w w' =
     (main w = MSelect \<and> 0 < MaxActiveTime (options w) \<and> main w' = MWait
      \<and> reason w' = ''MaxActiveTime elapsed'' \<and> numDequeues w' = numDequeues w \<and> finished w' = finished w
      \<and> same_sync w w' \<and> same_pcs w w' \<and> ctx w' = ctx w \<and> same_calls w w' \<and> same_dequeue_calls w w')"
| "effect AWgWait w w' =
     (main w = MWait \<and> wg w = 0 \<and> main w' = MFinished \<and> finished w'
      \<and> numDequeues w' = numDequeues w \<and> reason w' = reason w
      \<and> same_sync w w' \<and> same_pcs w w' \<and> ctx w' = ctx w \<and> same_calls w w' \<and> same_dequeue_calls w w')"
| "effect (ACallHandle h) w w' =
     (moves h HStart HInHandle w w' \<and> emits h [CallHandle (HandleCtx h) (hrecord (handlers w ! h))] w w'
      \<and> same_main w w' \<and> same_sync w w' \<and> ctx w' = ctx w)"
| "effect (AHandleReturn h e) w w' =
     (moves h HInHandle HMark w w' \<and> emits h [] w w'
      \<and> same_main w w' \<and> same_sync w w' \<and> ctx w' = ctx w)"
| "effect (AMark h marked markErr) w w' =
     (moves h HMark HCleanup w w'
      \<and> (\<exists>c. is_mark c \<and> mark_ctx c = Some RootCtx \<and> emits h [c] w w')
      \<and> same_main w w' \<and> same_sync w w' \<and> ctx w' = ctx w)"
| "effect (APostHandle h) w w' =
     (moves h HCleanup HRelease w w'
      \<and> emits h (if withHooks w then [CallPostHandle RootCtx (hrecord (handlers w ! h))] else []) w w'
      \<and> same_main w w' \<and> same_sync w w' \<and> ctx w' = ctx w)"
| "effect (AReleaseSlot h) w w' =
     (moves h HRelease HWgDone w w' \<and> emits h [SemRelease] w w'
      \<and> same_main w w' \<and> handlerSemaphore w < capacity w
      \<and> handlerSemaphore w' = handlerSemaphore w + 1 \<and> wg w' = wg w \<and> ctx w' = ctx w)"
| "effect (ARendezvous h) w w' =
     (moves h HRelease HWgDone w w' \<and> emits h [SemRelease] w w'
      \<and> capacity w = 0 \<and> main w = MAcquire \<and> main w' = MPreDequeue
      \<and> same_count w w' \<and> same_sync w w' \<and> ctx w' = ctx w)"
| "effect (AWgDone h) w w' =
     (moves h HWgDone HRemove w w' \<and> emits h [WgDone] w w'
      \<and> same_main w w' \<and> handlerSemaphore w' = handlerSemaphore w
      \<and> 0 < wg w \<and> wg w' = wg w - 1 \<and> ctx w' = ctx w)"
| "effect (ARegistryRemove h) w w' =
     (moves h HRemove HDone w w' \<and> emits h [RegistryRemove (hrecord (handlers w ! h))] w w'
      \<and> same_main w w' \<and> same_sync w w' \<and> ctx w' = ctx w)"
| "effect a w w' =
     (same_main w w' \<and> same_sync w w' \<and> same_pcs w w' \<and> same_calls w w' \<and> same_dequeue_calls w w'
      \<and> (ctx w' = ctx w \<or> ctx w = None \<and> (ctx w' = Some ContextCanceled \<or> ctx w' = Some DeadlineExceeded)))"

subsection \<open>The invariant\<close>

definition marks_ok :: "Worker \<Rightarrow> bool" where
  "marks_ok w = (\<forall>e \<in> set (marks (trace w)). mark_ctx e = Some RootCtx)"

definition zero_main :: "Worker \<Rightarrow> bool" where
  "zero_main w =
     (main w \<noteq> MSelect \<and> numDequeues w = 0 \<and> reason w \<noteq> ''MaxActiveTime elapsed''
      \<and> (main w = MWait \<or> main w = MFinished \<longrightarrow>
            ctx w \<noteq> None \<or> NumTotalJobs (options w) < 0 \<and> reason w = ''NumTotalJobs dequeued''))"

definition zero_capacity_ok :: "Worker \<Rightarrow> bool" where
  "zero_capacity_ok w =
     (capacity w = 0 \<longrightarrow> handlers w = [] \<and> dequeue_calls (trace w) = [] \<and> zero_main w)"

definition invariant :: "Worker \<Rightarrow> bool" where
  "invariant w =
     (created_last w \<and> slots_accounted w \<and> counters_ok w \<and> jobs_capped w \<and> reason_ok w
      \<and> finished_ok w \<and> ctx_ok w \<and> marks_ok w \<and> zero_capacity_ok w)"

subsection \<open>Calls in sequence, and example executions\<close>

text \<open>\<open>Stop_n n\<close> is \<open>n\<close> calls of \<open>Stop\<close>, one after the other. \<open>started opts acts\<close>
  is the state a new worker reaches on the schedule \<open>acts\<close>. The schedules below
  are executions of a worker with one handler slot: one record (id 7) is dequeued and
  handled.\<close>

fun Stop_n :: "nat \<Rightarrow> Worker \<Rightarrow> Worker option" where
  "Stop_n 0 w = Some w"
| "Stop_n (Suc n) w = (case Stop w of None \<Rightarrow> None | Some w' \<Rightarrow> Stop_n n w')"

definition example_options :: WorkerOptions where
  "example_options =
     \<lparr>Name = ''worker'', WorkerHostname = ''host'', NumHandlers = 1, NumTotalJobs = 1,
      MaxActiveTime = 0, Interval = 5, HeartbeatInterval = 3\<rparr>"

definition started :: "WorkerOptions \<Rightarrow> action list \<Rightarrow> Worker option" where
  "started opts acts =
     (case newWorker Live True True ''host'' opts of Inl p \<Rightarrow> None | Inr w0 \<Rightarrow> run acts w0)"

definition until_handle :: "action list" where
  "until_handle =
     [AStart, ALoopTop, AAcquireSlot, APreDequeue True None None, ADequeue 7 True None, ARegister,
      APreHandle, ACallHandle 0]"

definition one_job :: "action list" where
  "one_job =
     until_handle @
     [AHandleReturn 0 None, AMark 0 True None, APostHandle 0,
      AReleaseSlot 0, AWgDone 0, ARegistryRemove 0, ADelayElapsed, ALoopTop, AWgWait]"

definition after_stop :: "action list" where
  "after_stop =
     [AHandleReturn 0 (Some ContextCanceled), AMark 0 True None, APostHandle 0,
      AReleaseSlot 0, AWgDone 0, ARegistryRemove 0, ASelectCtxDone, AHeartbeatCtxDone, AWgWait]"




text \<open>A worker without handler slots whose \<open>NumTotalJobs\<close> is negative, and one whose
  \<open>NumTotalJobs\<close> is not set but whose \<open>MaxActiveTime\<close> is.\<close>

definition no_slots_negative_cap :: WorkerOptions where
  "no_slots_negative_cap = example_options\<lparr>NumHandlers := 0, NumTotalJobs := - 1\<rparr>"

definition no_slots :: WorkerOptions where
  "no_slots = example_options\<lparr>NumHandlers := 0, NumTotalJobs := 0, MaxActiveTime := 10\<rparr>"

text \<open>Schedules on which \<open>Handle\<close> returns an error for record 7, and which stops
  before a call of \<open>store.Dequeue\<close>.\<close>

definition handled_with_error :: "action list" where
  "handled_with_error = until_handle @ [AHandleReturn 0 (Some (ErrorNew ''boom''))]"

definition before_dequeue :: "action list" where
  "before_dequeue = [AStart, ALoopTop, AAcquireSlot, APreDequeue True None None]"

subsection \<open>The calls of a handler goroutine\<close>

text \<open>\<open>expected_calls hooks h i c p\<close> are the calls that handler goroutine \<open>h\<close> of
  record \<open>i\<close> has made when it is at position \<open>p\<close>, in their order; \<open>c\<close> is its terminal
  store call and \<open>hooks\<close> says whether the handler has \<open>PostHandle\<close>.\<close>

fun expected_calls :: "bool \<Rightarrow> nat \<Rightarrow> record_id \<Rightarrow> event \<Rightarrow> handler_pc \<Rightarrow> event list" where
  "expected_calls hooks h i c HCreated = []"
| "expected_calls hooks h i c HStart = []"
| "expected_calls hooks h i c HInHandle = [CallHandle (HandleCtx h) i]"
| "expected_calls hooks h i c HMark = [CallHandle (HandleCtx h) i]"
| "expected_calls hooks h i c HCleanup = [CallHandle (HandleCtx h) i, c]"
| "expected_calls hooks h i c HRelease =
     [CallHandle (HandleCtx h) i, c] @ (if hooks then [CallPostHandle RootCtx i] else [])"
| "expected_calls hooks h i c HWgDone =
     [CallHandle (HandleCtx h) i, c] @ (if hooks then [CallPostHandle RootCtx i] else []) @ [SemRelease]"
| "expected_calls hooks h i c HRemove =
     [CallHandle (HandleCtx h) i, c] @ (if hooks then [CallPostHandle RootCtx i] else [])
       @ [SemRelease, WgDone]"
| "expected_calls hooks h i c HDone =
     [CallHandle (HandleCtx h) i, c] @ (if hooks then [CallPostHandle RootCtx i] else [])
       @ [SemRelease, WgDone, RegistryRemove i]"

definition handler_calls_ok :: "Worker \<Rightarrow> nat \<Rightarrow> bool" where
  "handler_calls_ok w h =
     (if h < length (handlers w)
      then \<exists>c. is_mark c \<and> mark_ctx c = Some RootCtx
             \<and> hcalls h (trace w)
                 = expected_calls (withHooks w) h (hrecord (handlers w ! h)) c (hpc (handlers w ! h))
      else hcalls h (trace w) = [])"

definition calls_ok :: "Worker \<Rightarrow> bool" where
  "calls_ok w = (\<forall>h. handler_calls_ok w h)"

text \<open>\<open>happens_before P Q xs\<close>: every element of \<open>xs\<close> that satisfies \<open>Q\<close> comes after
  one that satisfies \<open>P\<close>. \<open>by_handler h P\<close> selects the events of handler goroutine
  \<open>h\<close> that satisfy \<open>P\<close>.\<close>

fun happens_before :: "('a \<Rightarrow> bool) \<Rightarrow> ('a \<Rightarrow> bool) \<Rightarrow> 'a list \<Rightarrow> bool" where
  "happens_before P Q [] = True"
| "happens_before P Q (x # xs) = (P x \<or> (\<not> Q x \<and> happens_before P Q xs))"

definition by_handler :: "nat \<Rightarrow> (event \<Rightarrow> bool) \<Rightarrow> thread \<times> event \<Rightarrow> bool" where
  "by_handler h P x = (fst x = Handler h \<and> P (snd x))"

fun is_post :: "event \<Rightarrow> bool" where
  "is_post (CallPostHandle c i) = True"
| "is_post e = False"

fun is_release :: "event \<Rightarrow> bool" where
  "is_release SemRelease = True"
| "is_release e = False"

fun is_wg_done :: "event \<Rightarrow> bool" where
  "is_wg_done WgDone = True"
| "is_wg_done e = False"

fun is_remove :: "event \<Rightarrow> bool" where
  "is_remove (RegistryRemove i) = True"
| "is_remove e = False"

text \<open>The positions after the terminal store call, and the next action of a handler
  goroutine at each position (for \<open>HCreated\<close> it is the dequeue loop's \<open>go\<close> statement;
  the results of \<open>Handle\<close> and of the store are examples).\<close>

definition marked_pc :: "handler_pc \<Rightarrow> bool" where
  "marked_pc p = (p = HCleanup \<or> p = HRelease \<or> p = HWgDone \<or> p = HRemove \<or> p = HDone)"

fun next_action :: "nat \<Rightarrow> handler_pc \<Rightarrow> action option" where
  "next_action h HCreated = Some APreHandle"
| "next_action h HStart = Some (ACallHandle h)"
| "next_action h HInHandle = Some (AHandleReturn h None)"
| "next_action h HMark = Some (AMark h True None)"
| "next_action h HCleanup = Some (APostHandle h)"
| "next_action h HRelease = Some (AReleaseSlot h)"
| "next_action h HWgDone = Some (AWgDone h)"
| "next_action h HRemove = Some (ARegistryRemove h)"
| "next_action h HDone = None"

text \<open>Schedules of a worker with one slot and no cap on the jobs: the handler of record 7
  has sent its slot back; then the loop dequeues record 7 again, before the handler has
  removed the id from the registry.\<close>

definition unlimited :: WorkerOptions where
  "unlimited = example_options\<lparr>NumTotalJobs := 0\<rparr>"

definition until_release :: "action list" where
  "until_release =
     until_handle @
     [AHandleReturn 0 (Some (ErrorNew ''boom'')), AMark 0 True None, APostHandle 0, AReleaseSlot 0]"

definition before_duplicate :: "action list" where
  "before_duplicate =
     until_release @
     [ADelayElapsed, ALoopTop, AAcquireSlot, APreDequeue True None None, ADequeue 7 True None]"

definition duplicate_dequeue :: "action list" where
  "duplicate_dequeue =
     before_duplicate @
     [ARegister, AWgDone 0, ARegistryRemove 0, AStop, ASelectCtxDone, AHeartbeatCtxDone, AWgWait]"

section \<open>Properties\<close>

subsection \<open>What the helper functions change\<close>

lemma emit_fields [simp]:
  "main (emit t e w) = main w"
  "handlers (emit t e w) = handlers w"
  "handlerSemaphore (emit t e w) = handlerSemaphore w"
  "wg (emit t e w) = wg w"
  "ctx (emit t e w) = ctx w"
  "numDequeues (emit t e w) = numDequeues w"
  "reason (emit t e w) = reason w"
  "options (emit t e w) = options w"
  "finished (emit t e w) = finished w"
  "runningIDSet (emit t e w) = runningIDSet w"
  "withHooks (emit t e w) = withHooks w"
  "withPreDequeue (emit t e w) = withPreDequeue w"
  "heartbeat (emit t e w) = heartbeat w"
  "cur_record (emit t e w) = cur_record w"
  "trace (emit t e w) = trace w @ [(t, e)]"
  "capacity (emit t e w) = capacity w"
  by (simp_all add: emit_def capacity_def)

lemma set_hpc_fields [simp]:
  "main (set_hpc h p w) = main w"
  "handlerSemaphore (set_hpc h p w) = handlerSemaphore w"
  "wg (set_hpc h p w) = wg w"
  "ctx (set_hpc h p w) = ctx w"
  "numDequeues (set_hpc h p w) = numDequeues w"
  "reason (set_hpc h p w) = reason w"
  "options (set_hpc h p w) = options w"
  "finished (set_hpc h p w) = finished w"
  "runningIDSet (set_hpc h p w) = runningIDSet w"
  "withHooks (set_hpc h p w) = withHooks w"
  "withPreDequeue (set_hpc h p w) = withPreDequeue w"
  "heartbeat (set_hpc h p w) = heartbeat w"
  "cur_record (set_hpc h p w) = cur_record w"
  "trace (set_hpc h p w) = trace w"
  "capacity (set_hpc h p w) = capacity w"
  "length (handlers (set_hpc h p w)) = length (handlers w)"
  by (simp_all add: set_hpc_def capacity_def)

lemma set_hpc_handlers:
  "handlers (set_hpc h p w) = (if h < length (handlers w) then (handlers w)[h := (handlers w ! h)\<lparr>hpc := p\<rparr>] else handlers w)"
  by (simp add: set_hpc_def)

lemma exit_loop_fields [simp]:
  "main (exit_loop w) = MWait"
  "handlers (exit_loop w) = handlers w"
  "handlerSemaphore (exit_loop w) = handlerSemaphore w"
  "wg (exit_loop w) = wg w"
  "ctx (exit_loop w) = ctx w"
  "numDequeues (exit_loop w) = numDequeues w"
  "reason (exit_loop w) = reason w"
  "options (exit_loop w) = options w"
  "finished (exit_loop w) = finished w"
  "runningIDSet (exit_loop w) = runningIDSet w"
  "withHooks (exit_loop w) = withHooks w"
  "withPreDequeue (exit_loop w) = withPreDequeue w"
  "heartbeat (exit_loop w) = heartbeat w"
  "trace (exit_loop w) = trace w @ [(MainLoop, Log ''Shutting down dequeue loop'')]"
  "capacity (exit_loop w) = capacity w"
  by (simp_all add: exit_loop_def capacity_def)

lemma after_fields [simp]:
  "main (after_dequeueAndHandle ok err w) = (if breaks_loop err w then MWait else MSelect)"
  "handlers (after_dequeueAndHandle ok err w) = handlers w"
  "handlerSemaphore (after_dequeueAndHandle ok err w) = handlerSemaphore w"
  "wg (after_dequeueAndHandle ok err w) = wg w"
  "ctx (after_dequeueAndHandle ok err w) = ctx w"
  "numDequeues (after_dequeueAndHandle ok err w) = (if \<not> breaks_loop err w \<and> ok then numDequeues w + 1 else numDequeues w)"
  "reason (after_dequeueAndHandle ok err w) = reason w"
  "options (after_dequeueAndHandle ok err w) = options w"
  "finished (after_dequeueAndHandle ok err w) = finished w"
  "runningIDSet (after_dequeueAndHandle ok err w) = runningIDSet w"
  "withHooks (after_dequeueAndHandle ok err w) = withHooks w"
  "withPreDequeue (after_dequeueAndHandle ok err w) = withPreDequeue w"
  "heartbeat (after_dequeueAndHandle ok err w) = heartbeat w"
  "capacity (after_dequeueAndHandle ok err w) = capacity w"
  "trace (after_dequeueAndHandle ok err w) =
     trace w @ (if breaks_loop err w then [(MainLoop, Log ''Shutting down dequeue loop'')]
                else if err \<noteq> None then [(MainLoop, Log ''Failed to dequeue and handle record'')] else [])"
  by (simp_all add: after_dequeueAndHandle_def breaks_loop_def capacity_def Let_def)

lemma dequeueAndHandle_return_SomeE:
  assumes "dequeueAndHandle_return d e w = Some w'"
  obtains "d" "w' = after_dequeueAndHandle True e w"
  | "\<not> d" "handlerSemaphore w < capacity w"
      "w' = after_dequeueAndHandle False e (emit MainLoop SemRelease (w\<lparr>handlerSemaphore := handlerSemaphore w + 1\<rparr>))"
  using assms by (auto simp: dequeueAndHandle_return_def split: if_splits)

lemma fold_remove_unknown_fields:
  "ctx (fold (remove_unknown known) xs w) = ctx w
   \<and> finished (fold (remove_unknown known) xs w) = finished w
   \<and> main (fold (remove_unknown known) xs w) = main w
   \<and> handlers (fold (remove_unknown known) xs w) = handlers w
   \<and> handlerSemaphore (fold (remove_unknown known) xs w) = handlerSemaphore w
   \<and> wg (fold (remove_unknown known) xs w) = wg w
   \<and> options (fold (remove_unknown known) xs w) = options w
   \<and> numDequeues (fold (remove_unknown known) xs w) = numDequeues w
   \<and> reason (fold (remove_unknown known) xs w) = reason w
   \<and> heartbeat (fold (remove_unknown known) xs w) = heartbeat w
   \<and> withHooks (fold (remove_unknown known) xs w) = withHooks w
   \<and> withPreDequeue (fold (remove_unknown known) xs w) = withPreDequeue w"
  by (induction xs arbitrary: w) (simp_all add: remove_unknown_def)

lemma heartbeat_reconcile_fields [simp]:
  "ctx (heartbeat_reconcile known err w) = ctx w"
  "finished (heartbeat_reconcile known err w) = finished w"
  "main (heartbeat_reconcile known err w) = main w"
  "handlers (heartbeat_reconcile known err w) = handlers w"
  "handlerSemaphore (heartbeat_reconcile known err w) = handlerSemaphore w"
  "wg (heartbeat_reconcile known err w) = wg w"
  "options (heartbeat_reconcile known err w) = options w"
  "numDequeues (heartbeat_reconcile known err w) = numDequeues w"
  "reason (heartbeat_reconcile known err w) = reason w"
  "withHooks (heartbeat_reconcile known err w) = withHooks w"
  "withPreDequeue (heartbeat_reconcile known err w) = withPreDequeue w"
  "capacity (heartbeat_reconcile known err w) = capacity w"
  by (simp_all add: heartbeat_reconcile_def fold_remove_unknown_fields capacity_def)

lemma cancel_ctx_fields [simp]:
  "main (cancel_ctx e w) = main w"
  "handlerSemaphore (cancel_ctx e w) = handlerSemaphore w"
  "wg (cancel_ctx e w) = wg w"
  "numDequeues (cancel_ctx e w) = numDequeues w"
  "reason (cancel_ctx e w) = reason w"
  "options (cancel_ctx e w) = options w"
  "finished (cancel_ctx e w) = finished w"
  "runningIDSet (cancel_ctx e w) = runningIDSet w"
  "withHooks (cancel_ctx e w) = withHooks w"
  "withPreDequeue (cancel_ctx e w) = withPreDequeue w"
  "heartbeat (cancel_ctx e w) = heartbeat w"
  "trace (cancel_ctx e w) = trace w"
  "capacity (cancel_ctx e w) = capacity w"
  "length (handlers (cancel_ctx e w)) = length (handlers w)"
  "map hpc (handlers (cancel_ctx e w)) = map hpc (handlers w)"
  "ctx (cancel_ctx e w) = (if ctx w = None then Some e else ctx w)"
  by (auto simp: cancel_ctx_def capacity_def cancel_handleCtx_def)

lemma Cancel_fields [simp]:
  "main (Cancel i w) = main w"
  "handlerSemaphore (Cancel i w) = handlerSemaphore w"
  "wg (Cancel i w) = wg w"
  "numDequeues (Cancel i w) = numDequeues w"
  "reason (Cancel i w) = reason w"
  "options (Cancel i w) = options w"
  "finished (Cancel i w) = finished w"
  "runningIDSet (Cancel i w) = runningIDSet w"
  "withHooks (Cancel i w) = withHooks w"
  "withPreDequeue (Cancel i w) = withPreDequeue w"
  "heartbeat (Cancel i w) = heartbeat w"
  "trace (Cancel i w) = trace w"
  "ctx (Cancel i w) = ctx w"
  "capacity (Cancel i w) = capacity w"
  "length (handlers (Cancel i w)) = length (handlers w)"
  "map hpc (handlers (Cancel i w)) = map hpc (handlers w)"
  by (auto simp: Cancel_def capacity_def cancel_handleCtx_def map_update list_update_same_conv split: option.splits)

lemma cancel_fields [simp]:
  "main (cancel w) = main w"
  "handlerSemaphore (cancel w) = handlerSemaphore w"
  "wg (cancel w) = wg w"
  "numDequeues (cancel w) = numDequeues w"
  "reason (cancel w) = reason w"
  "options (cancel w) = options w"
  "finished (cancel w) = finished w"
  "runningIDSet (cancel w) = runningIDSet w"
  "withHooks (cancel w) = withHooks w"
  "withPreDequeue (cancel w) = withPreDequeue w"
  "heartbeat (cancel w) = heartbeat w"
  "trace (cancel w) = trace w"
  "capacity (cancel w) = capacity w"
  "length (handlers (cancel w)) = length (handlers w)"
  "map hpc (handlers (cancel w)) = map hpc (handlers w)"
  "ctx (cancel w) = (if ctx w = None then Some ContextCanceled else ctx w)"
  by (simp_all add: cancel_def)

lemma filter_update_count:
  "i < length xs \<Longrightarrow>
     length (filter P (xs[i := y])) + (if P (xs ! i) then 1 else 0)
       = length (filter P xs) + (if P y then 1 else 0)"
proof (induction xs arbitrary: i)
  case Nil
  then show ?case by simp
next
  case (Cons x xs)
  then show ?case by (cases i) auto
qed

lemma Cancel_nth [simp]:
  "h < length (handlers w) \<Longrightarrow> hpc (handlers (Cancel i w) ! h) = hpc (handlers w ! h)"
  "h < length (handlers w) \<Longrightarrow> hrecord (handlers (Cancel i w) ! h) = hrecord (handlers w ! h)"
  by (auto simp: Cancel_def cancel_handleCtx_def nth_list_update split: option.splits)

lemma cancel_ctx_nth [simp]:
  "h < length (handlers w) \<Longrightarrow> hpc (handlers (cancel_ctx e w) ! h) = hpc (handlers w ! h)"
  "h < length (handlers w) \<Longrightarrow> hrecord (handlers (cancel_ctx e w) ! h) = hrecord (handlers w ! h)"
  by (auto simp: cancel_ctx_def cancel_handleCtx_def)

lemma cancel_nth [simp]:
  "h < length (handlers w) \<Longrightarrow> hpc (handlers (cancel w) ! h) = hpc (handlers w ! h)"
  "h < length (handlers w) \<Longrightarrow> hrecord (handlers (cancel w) ! h) = hrecord (handlers w ! h)"
  by (simp_all add: cancel_def)

lemma Cancel_nonempty [simp]: "(handlers (Cancel i w) = []) = (handlers w = [])"
  using Cancel_fields(15)[of i w] by (metis length_0_conv)

lemma cancel_ctx_nonempty [simp]: "(handlers (cancel_ctx e w) = []) = (handlers w = [])"
  using cancel_ctx_fields(14)[of e w] by (metis length_0_conv)

lemma cancel_nonempty [simp]: "(handlers (cancel w) = []) = (handlers w = [])"
  by (simp add: cancel_def)

subsection \<open>Every step has its effect\<close>

lemma hcalls_simps [simp]:
  "hcalls h [] = []"
  "hcalls h (tr @ tr') = hcalls h tr @ hcalls h tr'"
  "hcalls h ((t, e) # tr) = (if t = Handler h \<and> \<not> is_log e then [e] else []) @ hcalls h tr"
  by (simp_all add: hcalls_def)

lemma dequeue_calls_simps [simp]:
  "dequeue_calls [] = []"
  "dequeue_calls (tr @ tr') = dequeue_calls tr @ dequeue_calls tr'"
  "dequeue_calls ((t, e) # tr) = (if is_dequeue_call e then [e] else []) @ dequeue_calls tr"
  by (simp_all add: dequeue_calls_def)

lemma marks_simps [simp]:
  "marks [] = []"
  "marks (tr @ tr') = marks tr @ marks tr'"
  "marks ((t, e) # tr) = (if is_mark e then [e] else []) @ marks tr"
  by (simp_all add: marks_def)

lemma logs_no_calls [simp]:
  "hcalls h (map (\<lambda>s. (t, Log s)) logs) = []"
  "dequeue_calls (map (\<lambda>s. (t, Log s)) logs) = []"
  "marks (map (\<lambda>s. (t, Log s)) logs) = []"
  by (induction logs) simp_all

lemma log_marked_trace:
  "\<exists>logs. log_marked h marked markErr msg v = v\<lparr>trace := trace v @ map (\<lambda>s. (Handler h, Log s)) logs\<rparr>"
proof (cases "markErr \<noteq> None")
  case True
  have "log_marked h marked markErr msg v
          = v\<lparr>trace := trace v @ map (\<lambda>s. (Handler h, Log s)) [''Failed to finalize record'']\<rparr>"
    using True by (simp add: log_marked_def emit_def)
  then show ?thesis by blast
next
  case False
  show ?thesis
  proof (cases marked)
    case True
    have "log_marked h marked markErr msg v
          = v\<lparr>trace := trace v @ map (\<lambda>s. (Handler h, Log s)) [msg, ''Handled record'']\<rparr>"
      using True False by (simp add: log_marked_def emit_def)
    then show ?thesis by blast
  next
    case f: False
    have "log_marked h marked markErr msg v
          = v\<lparr>trace := trace v @ map (\<lambda>s. (Handler h, Log s)) [''Handled record'']\<rparr>"
      using f False by (simp add: log_marked_def emit_def)
    then show ?thesis by blast
  qed
qed

lemma handle_mark_cases:
  assumes "handle_mark h hr marked markErr w = Some w'"
  shows "\<exists>c msg. is_mark c \<and> mark_ctx c = Some RootCtx
           \<and> w' = log_marked h marked markErr msg (emit (Handler h) c w)"
proof -
  consider (failed) e where
      "w' = log_marked h marked markErr ''Marked record as failed''
              (emit (Handler h) (CallMarkFailed RootCtx (hrecord hr) (Error e)) w)"
    | (errored) e where
      "w' = log_marked h marked markErr ''Marked record as errored''
              (emit (Handler h) (CallMarkErrored RootCtx (hrecord hr) (Error e)) w)"
    | (complete)
      "w' = log_marked h marked markErr ''Marked record as complete''
              (emit (Handler h) (CallMarkComplete RootCtx (hrecord hr)) w)"
    using assms by (auto simp: handle_mark_def split: if_splits option.splits)
  then show ?thesis
  proof cases
    case failed
    then show ?thesis by (metis is_mark.simps(3) mark_ctx.simps(3))
  next
    case errored
    then show ?thesis by (metis is_mark.simps(2) mark_ctx.simps(2))
  next
    case complete
    then show ?thesis by (metis is_mark.simps(1) mark_ctx.simps(1))
  qed
qed

lemma handle_mark_SomeE:
  assumes "handle_mark h hr marked markErr w = Some w'"
  obtains c logs where "w' = w\<lparr>trace := trace w @ (Handler h, c) # map (\<lambda>s. (Handler h, Log s)) logs\<rparr>"
    "is_mark c" "mark_ctx c = Some RootCtx"
proof -
  from handle_mark_cases[OF assms] obtain c msg where c: "is_mark c" "mark_ctx c = Some RootCtx"
    and w': "w' = log_marked h marked markErr msg (emit (Handler h) c w)"
    by blast
  from log_marked_trace[of h marked markErr msg "emit (Handler h) c w"] obtain logs where
    "w' = (emit (Handler h) c w)\<lparr>trace := trace (emit (Handler h) c w) @ map (\<lambda>s. (Handler h, Log s)) logs\<rparr>"
    unfolding w' by blast
  then have "w' = w\<lparr>trace := trace w @ (Handler h, c) # map (\<lambda>s. (Handler h, Log s)) logs\<rparr>"
    by (simp add: emit_def)
  with c that show thesis by blast
qed

lemma fold_remove_unknown_trace:
  "\<exists>logs. trace (fold (remove_unknown known) xs w) = trace w @ map (\<lambda>s. (HeartbeatLoop, Log s)) logs"
proof (induction xs arbitrary: w)
  case Nil
  have "trace w = trace w @ map (\<lambda>s. (HeartbeatLoop, Log s)) []" by simp
  then show ?case by (metis fold_simps(1))
next
  case (Cons x xs)
  obtain l1 where 1: "trace (remove_unknown known x w) = trace w @ map (\<lambda>s. (HeartbeatLoop, Log s)) l1"
  proof (cases "x \<in> set known")
    case True
    then have "trace (remove_unknown known x w) = trace w @ map (\<lambda>s. (HeartbeatLoop, Log s)) []"
      by (simp add: remove_unknown_def)
    with that show ?thesis by blast
  next
    case False
    then have "trace (remove_unknown known x w)
        = trace w @ map (\<lambda>s. (HeartbeatLoop, Log s)) [''Removed unknown job from running set'']"
      by (simp add: remove_unknown_def)
    with that show ?thesis by blast
  qed
  from Cons.IH[of "remove_unknown known x w"] obtain l2 where
    "trace (fold (remove_unknown known) xs (remove_unknown known x w))
       = trace (remove_unknown known x w) @ map (\<lambda>s. (HeartbeatLoop, Log s)) l2"
    by blast
  with 1 have "trace (fold (remove_unknown known) (x # xs) w)
       = trace w @ map (\<lambda>s. (HeartbeatLoop, Log s)) (l1 @ l2)"
    by simp
  then show ?case by blast
qed

lemma heartbeat_reconcile_trace:
  "\<exists>logs. trace (heartbeat_reconcile known err w) = trace w @ map (\<lambda>s. (HeartbeatLoop, Log s)) logs"
proof -
  let ?w1 = "if err \<noteq> None then emit HeartbeatLoop (Log ''Failed to refresh heartbeats'') w else w"
  obtain l1 where 1: "trace ?w1 = trace w @ map (\<lambda>s. (HeartbeatLoop, Log s)) l1"
  proof (cases err)
    case None
    then have "trace ?w1 = trace w @ map (\<lambda>s. (HeartbeatLoop, Log s)) []" by simp
    with that show ?thesis by blast
  next
    case (Some e)
    then have "trace ?w1 = trace w @ map (\<lambda>s. (HeartbeatLoop, Log s)) [''Failed to refresh heartbeats'']"
      by simp
    with that show ?thesis by blast
  qed
  obtain l2 where "trace (fold (remove_unknown known) (ids w) ?w1)
      = trace ?w1 @ map (\<lambda>s. (HeartbeatLoop, Log s)) l2"
    using fold_remove_unknown_trace by blast
  with 1 have "trace (heartbeat_reconcile known err w) = trace w @ map (\<lambda>s. (HeartbeatLoop, Log s)) (l1 @ l2)"
    by (simp add: heartbeat_reconcile_def)
  then show ?thesis by blast
qed

lemma heartbeat_reconcile_calls [simp]:
  "hcalls h (trace (heartbeat_reconcile known err w)) = hcalls h (trace w)"
  "dequeue_calls (trace (heartbeat_reconcile known err w)) = dequeue_calls (trace w)"
  "marks (trace (heartbeat_reconcile known err w)) = marks (trace w)"
  using heartbeat_reconcile_trace[of known err w] by auto

lemma map_hrecord_cancel [simp]:
  "map hrecord (handlers (cancel_ctx e w)) = map hrecord (handlers w)"
  "map hrecord (handlers (Cancel i w)) = map hrecord (handlers w)"
  "map hrecord (handlers (cancel w)) = map hrecord (handlers w)"
  by (auto simp: cancel_def cancel_ctx_def Cancel_def cancel_handleCtx_def map_update list_update_same_conv
      split: option.splits)

lemma in_chain_refl [simp]: "in_chain e e"
  by (cases e) simp_all

lemma errors_Is_refl [simp]: "errors_Is (Some e) (Some e)"
  by (simp add: errors_Is_def)

lemma breaks_loop_None [simp]: "\<not> breaks_loop None w"
  by (simp add: breaks_loop_def)

lemma last_index_less [simp]: "(length xs - Suc 0 < length xs) = (xs \<noteq> [])"
  by (cases xs) simp_all

lemma map_update_id [simp]: "i < length xs \<Longrightarrow> (map f xs)[i := f (xs ! i)] = map f xs"
  by (simp add: list_update_same_conv)

lemmas effect_defs = same_main_def same_count_def same_sync_def same_pcs_def same_calls_def
  same_dequeue_calls_def returned_without_def moves_def emits_def

lemma step_effect_main:
  assumes "step a w = Some w'"
    "a = AStart \<or> a = ALoopTop \<or> a = AAcquireSlot \<or> a = AAcquireCtxDone \<or> a = ADelayElapsed
     \<or> a = ASelectCtxDone \<or> a = AShutdownTimer \<or> a = AWgWait \<or> a = APreHandle \<or> a = ARegister"
  shows "effect a w w'"
  using assms
  by (auto simp: effect_defs Let_def set_hpc_handlers map_update IDSet_Add_def breaks_loop_def
      elim!: dequeueAndHandle_return_SomeE
      split: if_splits prod.splits)

lemma step_effect_dequeue:
  assumes "step a w = Some w'" "a = APreDequeue d x e \<or> a = ADequeue r d e"
  shows "effect a w w'"
  using assms
  by (auto simp: effect_defs Let_def preDequeueHook_def breaks_loop_def
      elim!: dequeueAndHandle_return_SomeE
      split: if_splits prod.splits option.splits)

lemma is_mark_not_other [simp]: "is_mark c \<Longrightarrow> \<not> is_log c" "is_mark c \<Longrightarrow> \<not> is_dequeue_call c"
  by (cases c; simp)+

lemma step_effect_handler:
  assumes "step a w = Some w'"
    "a = ACallHandle h \<or> a = AHandleReturn h e \<or> a = APostHandle h
     \<or> a = AReleaseSlot h \<or> a = ARendezvous h \<or> a = AWgDone h \<or> a = ARegistryRemove h"
  shows "effect a w w'"
  using assms
  by (auto simp: effect_defs get_handler_def set_hpc_handlers map_update
      split: if_splits option.splits)

lemma step_effect_mark:
  assumes "step (AMark h m me) w = Some w'"
  shows "effect (AMark h m me) w w'"
proof -
  from assms obtain w1 where h: "h < length (handlers w)" "hpc (handlers w ! h) = HMark"
    and w1: "handle_mark h (handlers w ! h) m me w = Some w1" and w': "w' = set_hpc h HCleanup w1"
    by (auto simp: get_handler_def split: if_splits option.splits)
  from w1 obtain c logs where
    c: "w1 = w\<lparr>trace := trace w @ (Handler h, c) # map (\<lambda>s. (Handler h, Log s)) logs\<rparr>"
      "is_mark c" "mark_ctx c = Some RootCtx"
    by (rule handle_mark_SomeE)
  have "emits h [c] w w'"
    using c by (simp add: emits_def w')
  moreover have "moves h HMark HCleanup w w'"
    using h c(1) by (simp add: moves_def w' set_hpc_handlers map_update)
  moreover have "same_main w w'" "same_sync w w'" "ctx w' = ctx w"
    using c(1) by (simp_all add: same_main_def same_sync_def w')
  ultimately show ?thesis using c(2,3) by auto
qed

lemma step_effect_env:
  assumes "step a w = Some w'"
    "a = AHeartbeatCtxDone \<or> a = AHeartbeatTick \<or> a = AHeartbeatReturn k e \<or> a = AStop
     \<or> a = ACancel i \<or> a = AParentDone p"
  shows "effect a w w'"
  using assms
  by (auto simp: effect_defs elim!: parent_Err.elims split: if_splits option.splits)

lemma step_effect: "step a w = Some w' \<Longrightarrow> effect a w w'"
  by (cases a)
    (blast intro: step_effect_main step_effect_dequeue step_effect_handler step_effect_mark step_effect_env)+


subsection \<open>Invariants\<close>

lemma running_pc_simps [simp]:
  "\<not> running_pc HCreated" "running_pc HStart" "running_pc HInHandle" "running_pc HMark"
  "running_pc HCleanup" "running_pc HRelease" "\<not> running_pc HWgDone" "\<not> running_pc HRemove"
  "\<not> running_pc HDone"
  by (simp_all add: running_pc_def)

lemma wg_pc_simps [simp]:
  "\<not> wg_pc HCreated" "wg_pc HStart" "wg_pc HInHandle" "wg_pc HMark"
  "wg_pc HCleanup" "wg_pc HRelease" "wg_pc HWgDone" "\<not> wg_pc HRemove" "\<not> wg_pc HDone"
  by (simp_all add: wg_pc_def)

lemma spawned_pc_simps [simp]:
  "\<not> spawned_pc HCreated" "spawned_pc HStart" "spawned_pc HInHandle" "spawned_pc HMark"
  "spawned_pc HCleanup" "spawned_pc HRelease" "spawned_pc HWgDone" "spawned_pc HRemove" "spawned_pc HDone"
  by (simp_all add: spawned_pc_def)

lemma step_created_last: "step a w = Some w' \<Longrightarrow> created_last w \<Longrightarrow> created_last w'"
  apply (cases a)
  apply (auto simp: get_handler_def set_hpc_handlers created_last_def Let_def IDSet_Add_def nth_append nth_list_update last_conv_nth
      elim!: dequeueAndHandle_return_SomeE handle_mark_SomeE
      split: if_splits option.splits prod.splits)
  done

lemma step_options:
  "step a w = Some w' \<Longrightarrow>
     options w' = options w \<and> withHooks w' = withHooks w \<and> withPreDequeue w' = withPreDequeue w"
  by (cases a)
    (auto simp: get_handler_def Let_def elim!: dequeueAndHandle_return_SomeE handle_mark_SomeE
      split: if_splits option.splits prod.splits)

lemma count_map_hpc: "length (filter (Q \<circ> hpc) hs) = length (filter Q (map hpc hs))"
  by (simp add: filter_map)

lemma count_moves:
  assumes "moves h p p' w w'"
  shows "length (filter (Q \<circ> hpc) (handlers w')) + (if Q p then 1 else 0)
           = length (filter (Q \<circ> hpc) (handlers w)) + (if Q p' then 1 else 0)"
proof -
  from assms have h: "h < length (map hpc (handlers w))" and p: "map hpc (handlers w) ! h = p"
    and e: "map hpc (handlers w') = (map hpc (handlers w))[h := p']"
    by (simp_all add: moves_def)
  show ?thesis
    unfolding count_map_hpc e using filter_update_count[OF h, of Q p'] p by simp
qed

lemma moves_counts:
  assumes "moves h p p' w w'"
  shows "running_handlers w' + (if running_pc p then 1 else 0)
           = running_handlers w + (if running_pc p' then 1 else 0)
         \<and> wg_handlers w' + (if wg_pc p then 1 else 0) = wg_handlers w + (if wg_pc p' then 1 else 0)
         \<and> successful_dequeues w' + (if spawned_pc p then 1 else 0)
           = successful_dequeues w + (if spawned_pc p' then 1 else 0)"
  unfolding running_handlers_def wg_handlers_def successful_dequeues_def
  using count_moves[OF assms, of running_pc] count_moves[OF assms, of wg_pc]
    count_moves[OF assms, of spawned_pc]
  by blast

lemma same_pcs_counts:
  assumes "same_pcs w w'"
  shows "running_handlers w' = running_handlers w" "wg_handlers w' = wg_handlers w"
    "successful_dequeues w' = successful_dequeues w"
  using assms
  unfolding running_handlers_def wg_handlers_def successful_dequeues_def count_map_hpc same_pcs_def
  by simp_all

lemma register_counts:
  assumes "map hpc (handlers w') = map hpc (handlers w) @ [HCreated]"
  shows "running_handlers w' = running_handlers w" "wg_handlers w' = wg_handlers w"
    "successful_dequeues w' = successful_dequeues w"
  unfolding running_handlers_def wg_handlers_def successful_dequeues_def count_map_hpc assms
  by simp_all

lemma spawn_moves:
  assumes "map hpc (handlers w') = (map hpc (handlers w))[length (handlers w) - Suc 0 := HStart]"
    and "map hrecord (handlers w') = map hrecord (handlers w)"
    and "created_last w" "main w = MPreHandle"
  shows "moves (length (handlers w) - Suc 0) HCreated HStart w w'"
proof -
  from assms(3,4) have ne: "handlers w \<noteq> []" and l: "hpc (last (handlers w)) = HCreated"
    by (simp_all add: created_last_def)
  let ?h = "length (handlers w) - Suc 0"
  have "?h < length (handlers w)" using ne by simp
  moreover have "hpc (handlers w ! ?h) = HCreated" using l ne by (simp add: last_conv_nth)
  ultimately show ?thesis
    using assms(1,2) by (simp add: moves_def)
qed

lemma effect_slots_accounted:
  assumes e: "effect a w w'" and o: "options w' = options w"
    and c: "created_last w" and s: "slots_accounted w"
  shows "slots_accounted w'"
proof (cases a)
  case APreHandle
  with e c have "moves (length (handlers w) - Suc 0) HCreated HStart w w'"
    by (auto intro!: spawn_moves)
  from moves_counts[OF this] e APreHandle s o show ?thesis
    by (auto simp: slots_accounted_def holds_slot_def capacity_def)
next
  case ARegister
  with e s o show ?thesis
    by (auto simp: slots_accounted_def holds_slot_def capacity_def same_sync_def returned_without_def
        register_counts same_pcs_counts)
qed (use e s o in \<open>auto simp: slots_accounted_def holds_slot_def capacity_def same_main_def same_sync_def
       returned_without_def same_pcs_counts dest!: moves_counts\<close>)

lemma effect_counters_ok:
  assumes e: "effect a w w'" and c: "created_last w" and s: "counters_ok w"
  shows "counters_ok w'"
proof (cases a)
  case APreHandle
  with e c have "moves (length (handlers w) - Suc 0) HCreated HStart w w'"
    by (auto intro!: spawn_moves)
  from moves_counts[OF this] e APreHandle s show ?thesis
    by (auto simp: counters_ok_def)
next
  case ARegister
  with e s show ?thesis
    by (auto simp: counters_ok_def same_sync_def same_count_def returned_without_def
        register_counts same_pcs_counts)
qed (use e s in \<open>auto simp: counters_ok_def same_main_def same_count_def same_sync_def
       returned_without_def same_pcs_counts dest!: moves_counts\<close>)

lemma effect_jobs_capped:
  assumes e: "effect a w w'" and o: "options w' = options w" and s: "jobs_capped w"
  shows "jobs_capped w'"
  using e s o
  by (cases a)
    (auto simp: jobs_capped_def holds_slot_def same_main_def same_count_def returned_without_def)

lemma effect_reason_ok:
  assumes e: "effect a w w'" and o: "options w' = options w" and s: "reason_ok w"
  shows "reason_ok w'"
  using e s o
  by (cases a)
    (auto simp: reason_ok_def same_main_def same_count_def returned_without_def)

lemma effect_finished_ok:
  assumes e: "effect a w w'" and s: "finished_ok w"
  shows "finished_ok w'"
  using e s
  by (cases a)
    (auto simp: finished_ok_def same_main_def same_count_def same_sync_def returned_without_def)

lemma effect_ctx_ok:
  assumes e: "effect a w w'" and s: "ctx_ok w"
  shows "ctx_ok w'"
  using e s
  by (cases a) (auto simp: ctx_ok_def)


lemma effect_marks_ok:
  assumes e: "effect a w w'" and s: "marks_ok w"
  shows "marks_ok w'"
  using e s
  by (cases a) (auto simp: marks_ok_def same_calls_def emits_def)

lemma effect_no_handlers:
  assumes "effect a w w'" "\<not> holds_slot (main w)" "handlers w = []"
  shows "handlers w' = []"
  using assms by (cases a) (auto simp: holds_slot_def same_pcs_def moves_def)

lemma effect_no_dequeue_calls:
  assumes "effect a w w'" "\<not> holds_slot (main w)"
  shows "dequeue_calls (trace w') = dequeue_calls (trace w)"
  using assms by (cases a) (auto simp: holds_slot_def same_dequeue_calls_def emits_def)

lemma effect_zero_main:
  assumes "effect a w w'" "options w' = options w" "\<not> holds_slot (main w)" "handlers w = []"
    "handlerSemaphore w = 0" "zero_main w"
  shows "zero_main w'"
  using assms
  by (cases a) (auto simp: holds_slot_def zero_main_def same_main_def same_count_def moves_def)

lemma effect_zero_capacity_ok:
  assumes e: "effect a w w'" and o: "options w' = options w" and a: "slots_accounted w"
    and s: "zero_capacity_ok w"
  shows "zero_capacity_ok w'"
proof (cases "capacity w = 0")
  case True
  with a have h: "\<not> holds_slot (main w)" and z: "handlerSemaphore w = 0"
    by (auto simp: slots_accounted_def split: if_splits)
  from True s have n: "handlers w = []" and d: "dequeue_calls (trace w) = []" and m: "zero_main w"
    by (simp_all add: zero_capacity_ok_def)
  show ?thesis
    unfolding zero_capacity_ok_def
    using effect_no_handlers[OF e h n] effect_no_dequeue_calls[OF e h] d
      effect_zero_main[OF e o h n z m]
    by simp
next
  case False
  with o show ?thesis by (simp add: zero_capacity_ok_def capacity_def)
qed

lemma step_invariant:
  assumes "step a w = Some w'" "invariant w"
  shows "invariant w'"
proof -
  note e = step_effect[OF assms(1)]
  from step_options[OF assms(1)] have o: "options w' = options w" by simp
  from assms(2) have i: "created_last w" "slots_accounted w" "counters_ok w" "jobs_capped w"
    "reason_ok w" "finished_ok w" "ctx_ok w" "marks_ok w" "zero_capacity_ok w"
    by (simp_all add: invariant_def)
  show ?thesis
    unfolding invariant_def
    using step_created_last[OF assms(1) i(1)] effect_slots_accounted[OF e o i(1,2)]
      effect_counters_ok[OF e i(1,3)] effect_jobs_capped[OF e o i(4)] effect_reason_ok[OF e o i(5)]
      effect_finished_ok[OF e i(6)] effect_ctx_ok[OF e i(7)] effect_marks_ok[OF e i(8)]
      effect_zero_capacity_ok[OF e o i(2,9)]
    by simp
qed

lemma run_invariant: "run acts w = Some w' \<Longrightarrow> invariant w \<Longrightarrow> invariant w'"
proof (induction acts arbitrary: w)
  case Nil
  then show ?case by simp
next
  case (Cons a acts)
  then show ?case by (auto split: option.splits dest: step_invariant)
qed

lemma run_options:
  "run acts w = Some w' \<Longrightarrow>
     options w' = options w \<and> withHooks w' = withHooks w \<and> withPreDequeue w' = withPreDequeue w"
proof (induction acts arbitrary: w)
  case Nil
  then show ?case by simp
next
  case (Cons a acts)
  then show ?case by (auto split: option.splits dest: step_options)
qed

lemma newWorker_fields:
  assumes "newWorker parent pd hk host opts = Inr w"
  shows "NumHandlers (options w) = NumHandlers opts" "NumTotalJobs (options w) = NumTotalJobs opts"
    "MaxActiveTime (options w) = MaxActiveTime opts" "Interval (options w) = Interval opts"
    "0 \<le> NumHandlers opts" "withHooks w = hk" "withPreDequeue w = pd"
    "main w = MNew" "handlers w = []" "trace w = []" "ctx w = parent_Err parent"
    "numDequeues w = 0" "\<not> finished w" "wg w = 0" "runningIDSet w = []" "reason w = []"
    "handlerSemaphore w = nat (NumHandlers opts)"
  using assms by (auto simp: newWorker_def split: if_splits)

lemma newWorker_invariant:
  assumes "newWorker parent pd hk host opts = Inr w"
  shows "invariant w"
  using newWorker_fields[OF assms]
  by (cases parent)
    (simp_all add: invariant_def created_last_def slots_accounted_def counters_ok_def jobs_capped_def
      reason_ok_def finished_ok_def ctx_ok_def marks_ok_def zero_capacity_ok_def zero_main_def holds_slot_def
      running_handlers_def wg_handlers_def successful_dequeues_def capacity_def)

lemma reachable_invariant:
  assumes "newWorker parent pd hk host opts = Inr w0" "run acts w0 = Some w"
  shows "invariant w"
  using run_invariant[OF assms(2) newWorker_invariant[OF assms(1)]] .


lemma started_SomeD:
  "started opts acts = Some w \<Longrightarrow>
     \<exists>w0. newWorker Live True True ''host'' opts = Inr w0 \<and> run acts w0 = Some w"
  by (auto simp: started_def split: sum.splits)

lemma effect_stable:
  assumes "effect a w w'"
  shows "(ctx w \<noteq> None \<longrightarrow> ctx w' = ctx w) \<and> (finished w \<longrightarrow> finished w')"
  using assms by (cases a) (auto simp: same_main_def same_count_def)

lemma run_stable:
  "run acts w = Some w' \<Longrightarrow> (ctx w \<noteq> None \<longrightarrow> ctx w' = ctx w) \<and> (finished w \<longrightarrow> finished w')"
proof (induction acts arbitrary: w)
  case Nil
  then show ?case by simp
next
  case (Cons a acts)
  then obtain w1 where 1: "step a w = Some w1" and 2: "run acts w1 = Some w'"
    by (auto split: option.splits)
  from effect_stable[OF step_effect[OF 1]] Cons.IH[OF 2] show ?case by auto
qed

lemma run_append: "run (xs @ ys) w = (case run xs w of None \<Rightarrow> None | Some w' \<Rightarrow> run ys w')"
  by (induction xs arbitrary: w) (auto split: option.splits)

lemma cancel_done: "ctx w \<noteq> None \<Longrightarrow> cancel w = w"
  by (simp add: cancel_def cancel_ctx_def)

lemma Stop_n_done: "ctx w \<noteq> None \<Longrightarrow> finished w \<Longrightarrow> Stop_n n w = Some w"
  by (induction n) (simp_all add: Stop_def Wait_def cancel_done)

subsection \<open>Stop and Wait\<close>

text \<open>Claim C9. \<open>Stop\<close> is idempotent and \<open>Wait\<close> returns at once after termination.
  Cancelling the root context a second time changes nothing. Once a first \<open>Stop\<close> has
  cancelled the root context and the worker, after any steps of its goroutines, has
  terminated (\<open>finished\<close> is closed), any number of further calls of \<open>Stop\<close> return
  at once and leave the state as it is. From a state in which \<open>finished\<close> is closed,
  whatever steps follow, a call of \<open>Wait\<close> returns at once.\<close>

theorem Stop_idempotent_Wait_immediate:
  "cancel (cancel w) = cancel w
   \<and> (run acts (cancel w) = Some w1 \<longrightarrow> finished w1 \<longrightarrow> Stop_n n w1 = Some w1)
   \<and> (finished w \<longrightarrow> run acts' w = Some w2 \<longrightarrow> Wait w2 = Some w2)"
proof (intro conjI impI)
  have c: "ctx (cancel w) \<noteq> None" by simp
  then show "cancel (cancel w) = cancel w" by (rule cancel_done)
  show "Stop_n n w1 = Some w1" if "run acts (cancel w) = Some w1" "finished w1"
    using run_stable[OF that(1)] c that(2) by (simp add: Stop_n_done)
  show "Wait w2 = Some w2" if "finished w" "run acts' w = Some w2"
    using run_stable[OF that(2)] that(1) by (simp add: Wait_def)
qed

theorem Stop_idempotent_Wait_immediate_witness:
  "case started example_options until_handle of
     None \<Rightarrow> False
   | Some w \<Rightarrow>
       (case run after_stop (cancel w) of
          None \<Rightarrow> False
        | Some w1 \<Rightarrow>
            finished w1 \<and> cancel (cancel w) = cancel w \<and> Stop_n 3 w1 = Some w1
            \<and> run [ACancel 7, AStop] w1 \<noteq> None
            \<and> (case run [ACancel 7, AStop] w1 of None \<Rightarrow> False | Some w2 \<Rightarrow> Wait w2 = Some w2))"
proof -
  have e: "case started example_options until_handle of
     None \<Rightarrow> False
   | Some w \<Rightarrow>
       (case run after_stop (cancel w) of
          None \<Rightarrow> False
        | Some w1 \<Rightarrow> finished w1 \<and> run [ACancel 7, AStop] w1 \<noteq> None)"
    by code_simp
  then obtain w where w: "started example_options until_handle = Some w"
    by (auto split: option.splits)
  with e obtain w1 where w1: "run after_stop (cancel w) = Some w1" and f: "finished w1"
    and n: "run [ACancel 7, AStop] w1 \<noteq> None"
    by (auto split: option.splits)
  from n obtain w2 where w2: "run [ACancel 7, AStop] w1 = Some w2" by auto
  from Stop_idempotent_Wait_immediate[of w after_stop w1 3 "[]" w]
  have "cancel (cancel w) = cancel w" "Stop_n 3 w1 = Some w1"
    using w1 f by simp_all
  moreover from Stop_idempotent_Wait_immediate[of w1 "[]" w1 0 "[ACancel 7, AStop]" w2]
  have "Wait w2 = Some w2" using f w2 by simp
  ultimately show ?thesis using w w1 w2 f by simp
qed

subsection \<open>Bounded parallelism\<close>






subsection \<open>The cap on the number of jobs\<close>

lemma effect_numDequeues:
  assumes "effect a w w'"
  shows "numDequeues w' = numDequeues w + (if a = APreHandle then 1 else 0)"
  using assms by (cases a) (auto simp: same_main_def same_count_def)

lemma drained:
  assumes "created_last w" "counters_ok w" "finished_ok w" "finished w" "hr \<in> set (handlers w)"
  shows "hpc hr = HRemove \<or> hpc hr = HDone"
proof -
  from assms(3,4) have m: "main w = MFinished" and z: "wg w = 0"
    by (simp_all add: finished_ok_def)
  from z assms(2) have "filter (wg_pc \<circ> hpc) (handlers w) = []"
    by (simp add: counters_ok_def wg_handlers_def)
  with assms(5) have 1: "\<not> wg_pc (hpc hr)"
    by (auto simp: filter_empty_conv)
  from assms(5) obtain h where "h < length (handlers w)" "handlers w ! h = hr"
    by (auto simp: in_set_conv_nth)
  with assms(1) m have 2: "hpc hr \<noteq> HCreated"
    by (auto simp: created_last_def)
  from 1 2 show ?thesis
    by (cases "hpc hr") (simp_all add: wg_pc_def running_pc_def)
qed

text \<open>Claim C8. Let \<open>NumTotalJobs\<close> be \<open>n > 0\<close>. In every reachable state the successful
  dequeues (the calls of \<open>dequeueAndHandle\<close> that returned \<open>true\<close>, each of which spawned a
  handler goroutine) are at most \<open>n\<close>, and \<open>numDequeues\<close> is their number: a step
  changes it only when it is that return, so attempts that dequeue nothing do not count.
  If the loop has ended with the reason "NumTotalJobs dequeued", exactly \<open>n\<close> dequeues
  were successful. At the head of the loop with \<open>n\<close> successful dequeues the loop ends
  with that reason; with fewer it goes on to request a slot. Once \<open>Start\<close> has returned
  (\<open>finished\<close> is closed), every handler goroutine has passed its \<open>wg.Done\<close>, so its
  \<open>Handle\<close> and its terminal store call are over.\<close>

theorem NumTotalJobs_cap:
  assumes "newWorker parent pd hk host opts = Inr w0" and "run acts w0 = Some w"
    and "0 < NumTotalJobs opts"
  shows "numDequeues w = int (successful_dequeues w)
    \<and> int (successful_dequeues w) \<le> NumTotalJobs opts
    \<and> (\<forall>a w'. step a w = Some w' \<longrightarrow>
          numDequeues w' = numDequeues w + (if a = APreHandle then 1 else 0))
    \<and> (reason w = ''NumTotalJobs dequeued'' \<longrightarrow> int (successful_dequeues w) = NumTotalJobs opts)
    \<and> (main w = MLoopTop \<longrightarrow>
          (\<exists>w'. step ALoopTop w = Some w'
             \<and> (if int (successful_dequeues w) = NumTotalJobs opts
                 then main w' = MWait \<and> reason w' = ''NumTotalJobs dequeued''
                 else main w' = MAcquire)))
    \<and> (finished w \<longrightarrow> (\<forall>hr \<in> set (handlers w). hpc hr = HRemove \<or> hpc hr = HDone))"
proof -
  note i = reachable_invariant[OF assms(1,2)]
  from run_options[OF assms(2)] newWorker_fields(2)[OF assms(1)]
  have n: "NumTotalJobs (options w) = NumTotalJobs opts" by simp
  from i have c: "counters_ok w" and j: "jobs_capped w" and r: "reason_ok w"
    and f: "finished_ok w" and l: "created_last w"
    by (simp_all add: invariant_def)
  from c have 1: "numDequeues w = int (successful_dequeues w)" by (simp add: counters_ok_def)
  from j n assms(3) have 2: "numDequeues w \<le> NumTotalJobs opts" by (simp add: jobs_capped_def)
  from r n 2 have 3: "reason w = ''NumTotalJobs dequeued'' \<longrightarrow> numDequeues w = NumTotalJobs opts"
    by (auto simp: reason_ok_def)
  have 4: "main w = MLoopTop \<longrightarrow>
          (\<exists>w'. step ALoopTop w = Some w'
             \<and> (if numDequeues w = NumTotalJobs opts
                 then main w' = MWait \<and> reason w' = ''NumTotalJobs dequeued''
                 else main w' = MAcquire))"
    using n 2 assms(3) by (auto simp: exit_loop_def emit_def)
  have 5: "\<forall>a w'. step a w = Some w' \<longrightarrow>
          numDequeues w' = numDequeues w + (if a = APreHandle then 1 else 0)"
    using effect_numDequeues[OF step_effect] by blast
  have 6: "finished w \<longrightarrow> (\<forall>hr \<in> set (handlers w). hpc hr = HRemove \<or> hpc hr = HDone)"
    using drained[OF l c f] by blast
  from 1 2 3 4 5 6 show ?thesis by simp
qed

theorem NumTotalJobs_cap_witness:
  "case started example_options one_job of
     None \<Rightarrow> False
   | Some w \<Rightarrow>
       finished w \<and> reason w = ''NumTotalJobs dequeued'' \<and> successful_dequeues w = 1
       \<and> numDequeues w = 1 \<and> (\<forall>hr \<in> set (handlers w). hpc hr = HRemove \<or> hpc hr = HDone)"
proof -
  have e: "case started example_options one_job of
     None \<Rightarrow> False | Some w \<Rightarrow> finished w \<and> reason w = ''NumTotalJobs dequeued''"
    by code_simp
  then obtain w where w: "started example_options one_job = Some w"
    and f: "finished w" "reason w = ''NumTotalJobs dequeued''"
    by (auto split: option.splits)
  from started_SomeD[OF w] obtain w0 where
    n: "newWorker Live True True ''host'' example_options = Inr w0" and r: "run one_job w0 = Some w"
    by blast
  have p: "0 < NumTotalJobs example_options" "NumTotalJobs example_options = 1"
    by (simp_all add: example_options_def)
  from NumTotalJobs_cap[OF n r p(1)] f p(2)
  have "successful_dequeues w = 1 \<and> numDequeues w = 1
    \<and> (\<forall>hr \<in> set (handlers w). hpc hr = HRemove \<or> hpc hr = HDone)"
    by simp
  with w f show ?thesis by simp
qed

subsection \<open>A worker without handler slots\<close>

text \<open>Claim C10, as the code has it. With \<open>NumHandlers = 0\<close> the semaphore never holds a
  value, so the receive of line 227 is never possible; no call of the pre-dequeue hook or
  of \<open>store.Dequeue\<close> is ever made; the loop never reaches the \<open>select\<close> of line 187,
  so the \<open>MaxActiveTime\<close> timer is never observed and never is the reason. If \<open>Start\<close>
  has returned, then the root context is done or \<open>NumTotalJobs\<close> is negative and the loop
  ended at its head with the reason "NumTotalJobs dequeued".\<close>

theorem no_slots_blocked:
  assumes "newWorker parent pd hk host opts = Inr w0" and "NumHandlers opts = 0"
    and "run acts w0 = Some w"
  shows "handlerSemaphore w = 0 \<and> step AAcquireSlot w = None
    \<and> dequeue_calls (trace w) = []
    \<and> step AShutdownTimer w = None \<and> reason w \<noteq> ''MaxActiveTime elapsed''
    \<and> (finished w \<longrightarrow>
          ctx w \<noteq> None \<or> NumTotalJobs opts < 0 \<and> reason w = ''NumTotalJobs dequeued'')"
proof -
  note i = reachable_invariant[OF assms(1,3)]
  from run_options[OF assms(3)] newWorker_fields(1,2)[OF assms(1)] assms(2)
  have c: "capacity w = 0" and n: "NumTotalJobs (options w) = NumTotalJobs opts"
    by (simp_all add: capacity_def)
  from i have s: "slots_accounted w" and z: "zero_capacity_ok w" and f: "finished_ok w"
    by (simp_all add: invariant_def)
  from s c have 1: "handlerSemaphore w = 0" by (simp add: slots_accounted_def)
  from z c have d: "dequeue_calls (trace w) = []" and m: "zero_main w"
    by (simp_all add: zero_capacity_ok_def)
  from m f n show ?thesis
    using 1 d by (auto simp: zero_main_def finished_ok_def)
qed

theorem no_slots_blocked_witness:
  "case started no_slots [AStart, ALoopTop, AHeartbeatTick, AStop, AAcquireCtxDone, AWgWait] of
     None \<Rightarrow> False
   | Some w \<Rightarrow>
       finished w \<and> ctx w \<noteq> None \<and> handlerSemaphore w = 0 \<and> dequeue_calls (trace w) = []
       \<and> reason w \<noteq> ''MaxActiveTime elapsed''"
proof -
  let ?acts = "[AStart, ALoopTop, AHeartbeatTick, AStop, AAcquireCtxDone, AWgWait]"
  have e: "case started no_slots ?acts of None \<Rightarrow> False | Some w \<Rightarrow> finished w"
    by code_simp
  then obtain w where w: "started no_slots ?acts = Some w" and f: "finished w"
    by (auto split: option.splits)
  from started_SomeD[OF w] obtain w0 where
    n: "newWorker Live True True ''host'' no_slots = Inr w0" and r: "run ?acts w0 = Some w"
    by blast
  have p: "NumHandlers no_slots = 0" "\<not> NumTotalJobs no_slots < 0"
    by (simp_all add: no_slots_def example_options_def)
  from no_slots_blocked[OF n p(1) r] f p(2)
  have "ctx w \<noteq> None \<and> handlerSemaphore w = 0 \<and> dequeue_calls (trace w) = []
       \<and> reason w \<noteq> ''MaxActiveTime elapsed''"
    by blast
  with w f show ?thesis by simp
qed

theorem no_slots_counterexample:
  "case started no_slots_negative_cap [AStart, ALoopTop, AWgWait] of
     None \<Rightarrow> False
   | Some w \<Rightarrow> finished w \<and> ctx w = None \<and> reason w = ''NumTotalJobs dequeued''"
  by code_simp

subsection \<open>The terminal store call\<close>

lemma log_marked_marks [simp]: "marks (trace (log_marked h marked markErr msg v)) = marks (trace v)"
proof -
  from log_marked_trace[of h marked markErr msg v] obtain logs where
    "log_marked h marked markErr msg v = v\<lparr>trace := trace v @ map (\<lambda>s. (Handler h, Log s)) logs\<rparr>"
    by blast
  then show ?thesis by simp
qed

lemma handle_mark_total: "handle_mark h hr marked markErr w \<noteq> None"
  by (cases "handleErr hr") (simp_all add: handle_mark_def IsNonRetryable_def)

lemma AMark_enabled:
  "(step (AMark h marked markErr) w \<noteq> None) = (h < length (handlers w) \<and> hpc (handlers w ! h) = HMark)"
  using handle_mark_total[of h "handlers w ! h" marked markErr w]
  by (auto simp: get_handler_def)

text \<open>The test of line 307, as the code makes it. When \<open>Handle\<close> has returned, the
  next step of the handler goroutine makes exactly one terminal store call, with the root
  context: \<open>MarkComplete\<close> for a nil error; \<open>MarkFailed\<close> with the error's message for
  an error flagged non-retryable; \<open>MarkFailed\<close> for another error that is the error of the
  record's context (as \<open>errors.Is\<close> tells) while the id is in the registry;
  \<open>MarkErrored\<close> with the error's message for any other error. The test does not ask
  who cancelled the record's context.\<close>

lemma handle_terminal_call:
  assumes "get_handler w h = Some hr" and "hpc hr = HMark"
  shows "\<exists>w'. step (AMark h marked markErr) w = Some w'
    \<and> marks (trace w') = marks (trace w) @
        [case handleErr hr of
           None \<Rightarrow> CallMarkComplete RootCtx (hrecord hr)
         | Some e \<Rightarrow>
             if flagged e then CallMarkFailed RootCtx (hrecord hr) (Error e)
             else if errors_Is (Some e) (handleCtx hr) \<and> IDSet_Has (runningIDSet w) (hrecord hr)
             then CallMarkFailed RootCtx (hrecord hr) (Error e)
             else CallMarkErrored RootCtx (hrecord hr) (Error e)]"
proof (cases "handleErr hr")
  case None
  with assms show ?thesis
    by (simp add: handle_mark_def IsNonRetryable_def)
next
  case (Some e)
  with assms show ?thesis
    by (simp add: handle_mark_def IsNonRetryable_def isJobCanceled_def)
qed

lemma handle_terminal_call_witness:
  "case started example_options handled_with_error of
     None \<Rightarrow> False
   | Some w \<Rightarrow>
       (case step (AMark 0 True None) w of
          None \<Rightarrow> False
        | Some w' \<Rightarrow> marks (trace w') = marks (trace w) @ [CallMarkErrored RootCtx 7 ''boom''])"
proof -
  have e: "case started example_options handled_with_error of
     None \<Rightarrow> False
   | Some w \<Rightarrow>
       (case get_handler w 0 of
          None \<Rightarrow> False
        | Some hr \<Rightarrow> hpc hr = HMark \<and> handleErr hr = Some (ErrorNew ''boom'') \<and> hrecord hr = 7
            \<and> handleCtx hr = None)"
    by code_simp
  then obtain w hr where w: "started example_options handled_with_error = Some w"
    and g: "get_handler w 0 = Some hr" and p: "hpc hr = HMark"
    and h: "handleErr hr = Some (ErrorNew ''boom'')" "hrecord hr = 7" "handleCtx hr = None"
    by (auto split: option.splits)
  from handle_terminal_call[OF g p, of True None] obtain w' where
    "step (AMark 0 True None) w = Some w'"
    "marks (trace w') = marks (trace w) @ [CallMarkErrored RootCtx 7 ''boom'']"
    using h by (auto simp: errors_Is_def)
  with w show ?thesis by (simp del: step.simps)
qed

text \<open>Claim C4 does not hold of the code. The claim, like the comment of
  \<open>isJobCanceled\<close> (lines 331 to 333), takes the third case for a record cancelled
  through \<open>Cancel\<close>, and sends every other error to \<open>MarkErrored\<close>. The record's
  context is derived from the root context (line 251), so \<open>Stop\<close> cancels it as well,
  and the id is in the registry until the end of the cleanup. In the first schedule
  record 7 is dequeued and its handler is inside \<open>Handle\<close>; \<open>Stop\<close> is called, nobody
  calls \<open>Cancel\<close>, and \<open>Handle\<close> returns \<open>context.Canceled\<close>: \<open>isJobCanceled\<close> is
  true and the terminal call is \<open>MarkFailed\<close>. The second schedule has \<open>Cancel(7)\<close> in
  the place of \<open>Stop\<close>, the case the test is written for, and the call is the same. In
  the third nobody cancels anything and the same error of \<open>Handle\<close> gives
  \<open>MarkErrored\<close>.\<close>

theorem handle_marks_failed_after_Stop:
  "(case started example_options (until_handle @ [AStop, AHandleReturn 0 (Some ContextCanceled)]) of
      None \<Rightarrow> False
    | Some w \<Rightarrow>
        ctx w = Some ContextCanceled \<and> IDSet_Has (runningIDSet w) 7
        \<and> map handleCtx (handlers w) = [Some ContextCanceled]
        \<and> isJobCanceled w 7 (Some ContextCanceled) (Some ContextCanceled)
        \<and> (case step (AMark 0 True None) w of
              None \<Rightarrow> False
            | Some w' \<Rightarrow> marks (trace w') = [CallMarkFailed RootCtx 7 ''context canceled'']))
   \<and> (case started example_options (until_handle @ [ACancel 7, AHandleReturn 0 (Some ContextCanceled)]) of
         None \<Rightarrow> False
       | Some w \<Rightarrow>
           ctx w = None \<and> IDSet_Has (runningIDSet w) 7
           \<and> map handleCtx (handlers w) = [Some ContextCanceled]
           \<and> (case step (AMark 0 True None) w of
                 None \<Rightarrow> False
               | Some w' \<Rightarrow> marks (trace w') = [CallMarkFailed RootCtx 7 ''context canceled'']))
   \<and> (case started example_options (until_handle @ [AHandleReturn 0 (Some ContextCanceled)]) of
         None \<Rightarrow> False
       | Some w \<Rightarrow>
           ctx w = None \<and> map handleCtx (handlers w) = [None]
           \<and> (case step (AMark 0 True None) w of
                 None \<Rightarrow> False
               | Some w' \<Rightarrow> marks (trace w') = [CallMarkErrored RootCtx 7 ''context canceled'']))"
  by code_simp

text \<open>Claim C6. In every reachable state every terminal store call of the trace was made
  with the root context. \<open>Cancel\<close> leaves the root context as it is, and a handler
  goroutine that is about to make its terminal call can still make it after a
  \<open>Cancel\<close>, again with the root context.\<close>

theorem marks_use_root_ctx:
  assumes "newWorker parent pd hk host opts = Inr w0" and "run acts w0 = Some w"
  shows "(\<forall>e \<in> set (marks (trace w)). mark_ctx e = Some RootCtx)
    \<and> ctx (Cancel i w) = ctx w
    \<and> (step (AMark h marked markErr) w \<noteq> None \<longrightarrow>
         (\<exists>w'. step (AMark h marked markErr) (Cancel i w) = Some w'
            \<and> (\<forall>e \<in> set (marks (trace w')). mark_ctx e = Some RootCtx)))"
proof -
  note i = reachable_invariant[OF assms]
  then have 1: "\<forall>e \<in> set (marks (trace w)). mark_ctx e = Some RootCtx"
    by (simp add: invariant_def marks_ok_def)
  have c: "step (ACancel i) w = Some (Cancel i w)" by simp
  note j = step_invariant[OF c i]
  have 3: "\<exists>w'. step (AMark h marked markErr) (Cancel i w) = Some w'
            \<and> (\<forall>e \<in> set (marks (trace w')). mark_ctx e = Some RootCtx)"
    if "step (AMark h marked markErr) w \<noteq> None"
  proof -
    from that have "h < length (handlers w) \<and> hpc (handlers w ! h) = HMark"
      by (simp only: AMark_enabled)
    then have "h < length (handlers (Cancel i w)) \<and> hpc (handlers (Cancel i w) ! h) = HMark"
      by simp
    then have "step (AMark h marked markErr) (Cancel i w) \<noteq> None"
      by (simp only: AMark_enabled)
    then obtain w' where w': "step (AMark h marked markErr) (Cancel i w) = Some w'" by blast
    from step_invariant[OF w' j] have "\<forall>e \<in> set (marks (trace w')). mark_ctx e = Some RootCtx"
      by (simp add: invariant_def marks_ok_def)
    with w' show ?thesis by blast
  qed
  from 1 3 show ?thesis by simp
qed

theorem marks_use_root_ctx_witness:
  "case started example_options handled_with_error of
     None \<Rightarrow> False
   | Some w \<Rightarrow>
       ctx (Cancel 7 w) = ctx w
       \<and> (case step (AMark 0 True None) (Cancel 7 w) of
             None \<Rightarrow> False
           | Some w' \<Rightarrow> marks (trace w') \<noteq> [] \<and> (\<forall>e \<in> set (marks (trace w')). mark_ctx e = Some RootCtx))"
proof -
  have e: "case started example_options handled_with_error of
     None \<Rightarrow> False
   | Some w \<Rightarrow> step (AMark 0 True None) w \<noteq> None
       \<and> (case step (AMark 0 True None) (Cancel 7 w) of
             None \<Rightarrow> False | Some w' \<Rightarrow> marks (trace w') \<noteq> [])"
    by code_simp
  then obtain w where w: "started example_options handled_with_error = Some w"
    and s: "step (AMark 0 True None) w \<noteq> None"
    and m: "case step (AMark 0 True None) (Cancel 7 w) of
             None \<Rightarrow> False | Some w' \<Rightarrow> marks (trace w') \<noteq> []"
    by (auto split: option.splits)
  from started_SomeD[OF w] obtain w0 where
    n: "newWorker Live True True ''host'' example_options = Inr w0"
    and r: "run handled_with_error w0 = Some w"
    by blast
  from marks_use_root_ctx[OF n r, of 7 0 True None] s obtain w' where
    "ctx (Cancel 7 w) = ctx w" "step (AMark 0 True None) (Cancel 7 w) = Some w'"
    "\<forall>e \<in> set (marks (trace w')). mark_ctx e = Some RootCtx"
    by blast
  with w m show ?thesis by (simp del: step.simps)
qed

subsection \<open>Errors of the dequeue\<close>

lemma errors_Is_Wrap:
  "ctx_ok w \<Longrightarrow> errors_Is (Some (Wrap e m)) (ctx w) = errors_Is (Some e) (ctx w)"
  by (auto simp: ctx_ok_def errors_Is_def)

text \<open>Claim C7. When \<open>store.Dequeue\<close> returns an error, the slot goes back to the
  semaphore. If the root context is done and the error is its error, the loop ends
  and the only log line is that of the shutdown; otherwise "Failed to dequeue and handle
  record" is logged and the loop is in the \<open>select\<close> that ends the iteration, from
  where the elapsed delay (the poll interval) leads to the next iteration.\<close>

theorem dequeue_error_handling:
  assumes "newWorker parent pd hk host opts = Inr w0" and "run acts w0 = Some w"
    and "main w = MDequeue"
  shows "\<exists>w'. step (ADequeue r d (Some e)) w = Some w'
    \<and> (if ctx w \<noteq> None \<and> errors_Is (Some e) (ctx w)
        then main w' = MWait
          \<and> trace w' = trace w @
               [(MainLoop, CallDequeue RootCtx (WorkerHostname (options w)) (extraDequeueArguments w)
                   r d (Some e)),
                (MainLoop, SemRelease),
                (MainLoop, Log ''Shutting down dequeue loop'')]
        else main w' = MSelect \<and> delay w' = Interval (options w) \<and> numDequeues w' = numDequeues w
          \<and> trace w' = trace w @
               [(MainLoop, CallDequeue RootCtx (WorkerHostname (options w)) (extraDequeueArguments w)
                   r d (Some e)),
                (MainLoop, SemRelease),
                (MainLoop, Log ''Failed to dequeue and handle record'')]
          \<and> (\<exists>w''. step ADelayElapsed w' = Some w'' \<and> main w'' = MLoopTop))"
proof -
  note i = reachable_invariant[OF assms(1,2)]
  then have s: "slots_accounted w" and c: "ctx_ok w" by (simp_all add: invariant_def)
  from s assms(3) have l: "handlerSemaphore w < capacity w"
    by (simp add: slots_accounted_def holds_slot_def)
  note wrap = errors_Is_Wrap[OF c, of e "''store.Dequeue''"]
  show ?thesis
    using assms(3) l wrap
    by (simp add: dequeueAndHandle_return_def breaks_loop_def Let_def
        after_dequeueAndHandle_def emit_def exit_loop_def capacity_def)
qed

theorem dequeue_error_handling_witness:
  "case started example_options before_dequeue of
     None \<Rightarrow> False
   | Some w \<Rightarrow>
       (case step (ADequeue 0 False (Some (ErrorNew ''connection refused''))) w of
          None \<Rightarrow> False
        | Some w' \<Rightarrow> main w' = MSelect \<and> delay w' = 5
            \<and> last (trace w') = (MainLoop, Log ''Failed to dequeue and handle record''))"
proof -
  have e: "case started example_options before_dequeue of
     None \<Rightarrow> False | Some w \<Rightarrow> main w = MDequeue \<and> ctx w = None \<and> Interval (options w) = 5"
    by code_simp
  then obtain w where w: "started example_options before_dequeue = Some w"
    and m: "main w = MDequeue" "ctx w = None" "Interval (options w) = 5"
    by (auto split: option.splits)
  from started_SomeD[OF w] obtain w0 where
    n: "newWorker Live True True ''host'' example_options = Inr w0"
    and r: "run before_dequeue w0 = Some w"
    by blast
  from dequeue_error_handling[OF n r m(1), of 0 False "ErrorNew ''connection refused''"] m(2,3)
  obtain w' where "step (ADequeue 0 False (Some (ErrorNew ''connection refused''))) w = Some w'"
    "main w' = MSelect \<and> delay w' = 5
       \<and> last (trace w') = (MainLoop, Log ''Failed to dequeue and handle record'')"
    by auto
  with w show ?thesis by (simp del: step.simps)
qed

subsection \<open>A failed heartbeat\<close>

text \<open>Claim C2 does not hold of the code. The schedule dequeues record 7 and starts its
  handler; the heartbeat loop takes the snapshot \<open>[7]\<close> and \<open>store.Heartbeat\<close> returns
  no ids and an error. The loop logs the error and goes on to the removal (there is no
  \<open>continue\<close> after line 131): the registry is empty afterwards although the handler is
  still inside \<open>Handle\<close>. The loop itself goes on: it is back in its \<open>select\<close>.\<close>

theorem heartbeat_error_removes_ids:
  "case started example_options (until_handle @ [AHeartbeatTick]) of
     None \<Rightarrow> False
   | Some w \<Rightarrow>
       runningIDSet w = [(7, 0)]
       \<and> (case step (AHeartbeatReturn [] (Some (ErrorNew ''store unavailable''))) w of
             None \<Rightarrow> False
           | Some w' \<Rightarrow>
               runningIDSet w' = [] \<and> heartbeat w' = HBWait
               \<and> map hpc (handlers w') = [HInHandle]
               \<and> drop (length (trace w)) (trace w')
                   = [(HeartbeatLoop, Log ''Failed to refresh heartbeats''),
                      (HeartbeatLoop, Log ''Removed unknown job from running set'')])"
  by code_simp

subsection \<open>The order of the calls of a handler goroutine\<close>

lemma moves_nth:
  assumes "moves h p p' w w'"
  shows "length (handlers w') = length (handlers w)"
    and "h < length (handlers w)"
    and "hpc (handlers w ! h) = p"
    and "k < length (handlers w) \<Longrightarrow> hpc (handlers w' ! k) = (if k = h then p' else hpc (handlers w ! k))"
    and "k < length (handlers w) \<Longrightarrow> hrecord (handlers w' ! k) = hrecord (handlers w ! k)"
proof -
  from assms have h: "h < length (handlers w)" "hpc (handlers w ! h) = p"
    and e: "map hpc (handlers w') = (map hpc (handlers w))[h := p']"
    and r: "map hrecord (handlers w') = map hrecord (handlers w)"
    by (simp_all add: moves_def)
  from r have l: "length (handlers w') = length (handlers w)"
    by (metis length_map)
  show "length (handlers w') = length (handlers w)" by (rule l)
  show "h < length (handlers w)" "hpc (handlers w ! h) = p" by (rule h)+
  show "hpc (handlers w' ! k) = (if k = h then p' else hpc (handlers w ! k))" if "k < length (handlers w)"
  proof -
    have "hpc (handlers w' ! k) = map hpc (handlers w') ! k" using that l by simp
    also have "\<dots> = (map hpc (handlers w))[h := p'] ! k" by (simp only: e)
    also have "\<dots> = (if k = h then p' else hpc (handlers w ! k))" using that by (simp add: nth_list_update)
    finally show ?thesis .
  qed
  show "hrecord (handlers w' ! k) = hrecord (handlers w ! k)" if "k < length (handlers w)"
  proof -
    have "hrecord (handlers w' ! k) = map hrecord (handlers w') ! k" using that l by simp
    also have "\<dots> = hrecord (handlers w ! k)" using that by (simp add: r)
    finally show ?thesis .
  qed
qed

lemma same_pcs_nth:
  assumes "same_pcs w w'"
  shows "length (handlers w') = length (handlers w)"
    and "k < length (handlers w) \<Longrightarrow> hpc (handlers w' ! k) = hpc (handlers w ! k)"
    and "k < length (handlers w) \<Longrightarrow> hrecord (handlers w' ! k) = hrecord (handlers w ! k)"
proof -
  from assms have e: "map hpc (handlers w') = map hpc (handlers w)"
    and r: "map hrecord (handlers w') = map hrecord (handlers w)"
    by (simp_all add: same_pcs_def)
  from r show l: "length (handlers w') = length (handlers w)" by (metis length_map)
  show "hpc (handlers w' ! k) = hpc (handlers w ! k)" if "k < length (handlers w)"
    using that l nth_map[of k "handlers w'" hpc] nth_map[of k "handlers w" hpc] e by simp
  show "hrecord (handlers w' ! k) = hrecord (handlers w ! k)" if "k < length (handlers w)"
    using that l nth_map[of k "handlers w'" hrecord] nth_map[of k "handlers w" hrecord] r by simp
qed

lemma same_calls_ok:
  assumes p: "same_pcs w w'" and c: "\<forall>k. hcalls k (trace w') = hcalls k (trace w)"
    and o: "withHooks w' = withHooks w" and i: "calls_ok w"
  shows "calls_ok w'"
  unfolding calls_ok_def
proof
  fix k
  from i have "handler_calls_ok w k" by (simp add: calls_ok_def)
  then show "handler_calls_ok w' k"
    using same_pcs_nth[OF p] c o by (simp add: handler_calls_ok_def)
qed

lemma moves_calls_ok:
  assumes m: "moves h p p' w w'"
    and e: "\<forall>k. hcalls k (trace w') = hcalls k (trace w) @ (if k = h then es else [])"
    and o: "withHooks w' = withHooks w" and i: "calls_ok w"
    and x: "\<And>c. is_mark c \<Longrightarrow> mark_ctx c = Some RootCtx \<Longrightarrow>
              \<exists>c'. is_mark c' \<and> mark_ctx c' = Some RootCtx
                \<and> expected_calls (withHooks w) h (hrecord (handlers w ! h)) c p @ es
                    = expected_calls (withHooks w) h (hrecord (handlers w ! h)) c' p'"
  shows "calls_ok w'"
  unfolding calls_ok_def
proof
  fix k
  note n = moves_nth[OF m]
  from i have a: "handler_calls_ok w k" by (simp add: calls_ok_def)
  show "handler_calls_ok w' k"
  proof (cases "k = h")
    case True
    from a True n(2,3) obtain c where c: "is_mark c" "mark_ctx c = Some RootCtx"
      "hcalls h (trace w) = expected_calls (withHooks w) h (hrecord (handlers w ! h)) c p"
      by (auto simp: handler_calls_ok_def)
    from x[OF c(1,2)] obtain c' where c': "is_mark c'" "mark_ctx c' = Some RootCtx"
      "expected_calls (withHooks w) h (hrecord (handlers w ! h)) c p @ es
         = expected_calls (withHooks w) h (hrecord (handlers w ! h)) c' p'"
      by blast
    from e have "hcalls h (trace w') = hcalls h (trace w) @ es" by simp
    with c(3) c'(3) have "hcalls h (trace w')
        = expected_calls (withHooks w) h (hrecord (handlers w ! h)) c' p'"
      by simp
    with c'(1,2) True n o show ?thesis
      by (auto simp: handler_calls_ok_def)
  next
    case False
    with e have "hcalls k (trace w') = hcalls k (trace w)" by simp
    with a False n o show ?thesis
      by (simp add: handler_calls_ok_def)
  qed
qed

lemma register_calls_ok:
  assumes p: "map hpc (handlers w') = map hpc (handlers w) @ [HCreated]"
    and r: "map hrecord (handlers w') = map hrecord (handlers w) @ [i]"
    and c: "\<forall>k. hcalls k (trace w') = hcalls k (trace w)"
    and o: "withHooks w' = withHooks w" and i: "calls_ok w"
  shows "calls_ok w'"
  unfolding calls_ok_def
proof
  fix k
  from r have l: "length (handlers w') = Suc (length (handlers w))"
    by (metis length_append_singleton length_map)
  from i have a: "handler_calls_ok w k" by (simp add: calls_ok_def)
  consider (old) "k < length (handlers w)" | (new) "k = length (handlers w)"
    | (none) "length (handlers w) < k"
    by linarith
  then show "handler_calls_ok w' k"
  proof cases
    case old
    have "hpc (handlers w' ! k) = map hpc (handlers w') ! k" using old l by simp
    also have "\<dots> = hpc (handlers w ! k)" using old by (simp add: p nth_append)
    finally have 1: "hpc (handlers w' ! k) = hpc (handlers w ! k)" .
    have "hrecord (handlers w' ! k) = map hrecord (handlers w') ! k" using old l by simp
    also have "\<dots> = hrecord (handlers w ! k)" using old by (simp add: r nth_append)
    finally have 2: "hrecord (handlers w' ! k) = hrecord (handlers w ! k)" .
    from a old l c o 1 2 show ?thesis by (simp add: handler_calls_ok_def)
  next
    case new
    have "hpc (handlers w' ! k) = map hpc (handlers w') ! k" using new l by simp
    also have "\<dots> = HCreated" using new by (simp add: p nth_append)
    finally have 1: "hpc (handlers w' ! k) = HCreated" .
    from a new have "hcalls k (trace w) = []" by (simp add: handler_calls_ok_def)
    with c have "hcalls k (trace w') = []" by simp
    moreover have "\<exists>c. is_mark c \<and> mark_ctx c = Some RootCtx"
      by (rule exI[of _ "CallMarkComplete RootCtx 0"]) simp
    ultimately show ?thesis using new l 1 by (simp add: handler_calls_ok_def)
  next
    case none
    with a l c show ?thesis by (simp add: handler_calls_ok_def)
  qed
qed

lemma emitsD: "emits h es w w' \<Longrightarrow> \<forall>k. hcalls k (trace w') = hcalls k (trace w) @ (if k = h then es else [])"
  by (simp add: emits_def)

lemma same_callsD: "same_calls w w' \<Longrightarrow> \<forall>k. hcalls k (trace w') = hcalls k (trace w)"
  by (simp add: same_calls_def)

lemma effect_calls_ok:
  assumes e: "effect a w w'" and o: "withHooks w' = withHooks w" and l: "created_last w"
    and i: "calls_ok w"
  shows "calls_ok w'"
proof (cases a)
  case APreHandle
  with e l have m: "moves (length (handlers w) - Suc 0) HCreated HStart w w'"
    by (auto intro!: spawn_moves)
  from e APreHandle have "\<forall>k. hcalls k (trace w') = hcalls k (trace w)"
    by (simp add: same_calls_def)
  then have "\<forall>k. hcalls k (trace w')
      = hcalls k (trace w) @ (if k = length (handlers w) - Suc 0 then [] else [])"
    by simp
  from moves_calls_ok[OF m this o i] show ?thesis by auto
next
  case ARegister
  with e have "main w' = MPreHandle \<and> map hpc (handlers w') = map hpc (handlers w) @ [HCreated]
        \<and> map hrecord (handlers w') = map hrecord (handlers w) @ [cur_record w]
      \<or> same_pcs w w'"
    and c: "\<forall>k. hcalls k (trace w') = hcalls k (trace w)"
    by (auto simp: same_calls_def)
  then show ?thesis
    using register_calls_ok[OF _ _ c o i] same_calls_ok[OF _ c o i] by blast
next
  case (ACallHandle h)
  with e show ?thesis
    by (auto intro!: moves_calls_ok[OF _ _ o i] dest: emitsD)
next
  case (AHandleReturn h err)
  with e show ?thesis
    by (auto intro!: moves_calls_ok[OF _ _ o i] dest: emitsD)
next
  case (AMark h marked markErr)
  with e obtain c where m: "moves h HMark HCleanup w w'" and c: "is_mark c" "mark_ctx c = Some RootCtx"
    and s: "emits h [c] w w'"
    by auto
  show ?thesis
    using c by (auto intro!: moves_calls_ok[OF m emitsD[OF s] o i])
next
  case (APostHandle h)
  with e show ?thesis
    by (auto intro!: moves_calls_ok[OF _ _ o i] dest: emitsD)
next
  case (AReleaseSlot h)
  with e show ?thesis
    by (auto intro!: moves_calls_ok[OF _ _ o i] dest: emitsD)
next
  case (ARendezvous h)
  with e show ?thesis
    by (auto intro!: moves_calls_ok[OF _ _ o i] dest: emitsD)
next
  case (AWgDone h)
  with e show ?thesis
    by (auto intro!: moves_calls_ok[OF _ _ o i] dest: emitsD)
next
  case (ARegistryRemove h)
  with e show ?thesis
    by (auto intro!: moves_calls_ok[OF _ _ o i] dest: emitsD)
qed (use e in \<open>auto intro!: same_calls_ok[OF _ _ o i] dest: same_callsD\<close>)

lemma run_calls_ok:
  "run acts w = Some w' \<Longrightarrow> invariant w \<Longrightarrow> calls_ok w \<Longrightarrow> calls_ok w'"
proof (induction acts arbitrary: w)
  case Nil
  then show ?case by simp
next
  case (Cons a acts)
  then obtain w1 where 1: "step a w = Some w1" and 2: "run acts w1 = Some w'"
    by (auto split: option.splits)
  from Cons.prems(2) have l: "created_last w" by (simp add: invariant_def)
  from step_options[OF 1] have o: "withHooks w1 = withHooks w" by simp
  from effect_calls_ok[OF step_effect[OF 1] o l Cons.prems(3)] have "calls_ok w1" .
  with Cons.IH[OF 2 step_invariant[OF 1 Cons.prems(2)]] show ?case .
qed

lemma reachable_calls_ok:
  assumes "newWorker parent pd hk host opts = Inr w0" "run acts w0 = Some w"
  shows "calls_ok w"
proof -
  from newWorker_fields(9,10)[OF assms(1)] have "calls_ok w0"
    by (simp add: calls_ok_def handler_calls_ok_def)
  from run_calls_ok[OF assms(2) newWorker_invariant[OF assms(1)] this] show ?thesis .
qed

lemma happens_before_hcalls:
  assumes "\<And>e. P e \<Longrightarrow> \<not> is_log e" and "\<And>e. Q e \<Longrightarrow> \<not> is_log e"
  shows "happens_before (by_handler h P) (by_handler h Q) tr = happens_before P Q (hcalls h tr)"
proof (induction tr)
  case Nil
  then show ?case by simp
next
  case (Cons x tr)
  obtain t e where x: "x = (t, e)" by (cases x)
  show ?case
  proof (cases "t = Handler h \<and> \<not> is_log e")
    case True
    with Cons x show ?thesis by (simp add: by_handler_def)
  next
    case False
    with assms have "\<not> by_handler h P x" "\<not> by_handler h Q x"
      by (auto simp: by_handler_def x)
    with Cons False x show ?thesis by auto
  qed
qed

lemma not_log [simp]:
  "is_post e \<Longrightarrow> \<not> is_log e" "is_release e \<Longrightarrow> \<not> is_log e" "is_wg_done e \<Longrightarrow> \<not> is_log e"
  "is_remove e \<Longrightarrow> \<not> is_log e"
  by (cases e; simp)+

lemma mark_not_cleanup [simp]:
  "is_mark c \<Longrightarrow> \<not> is_post c" "is_mark c \<Longrightarrow> \<not> is_release c" "is_mark c \<Longrightarrow> \<not> is_wg_done c"
  "is_mark c \<Longrightarrow> \<not> is_remove c"
  by (cases c; simp)+

lemma expected_calls_order:
  assumes "is_mark c"
  shows "happens_before is_mark is_post (expected_calls hooks h i c p)"
    and "happens_before is_mark is_release (expected_calls hooks h i c p)"
    and "hooks \<Longrightarrow> happens_before is_post is_release (expected_calls hooks h i c p)"
    and "happens_before is_release is_wg_done (expected_calls hooks h i c p)"
    and "happens_before is_wg_done is_remove (expected_calls hooks h i c p)"
    and "happens_before is_release is_remove (expected_calls hooks h i c p)"
  using assms by (cases p; simp)+

lemma expected_calls_marks:
  assumes "is_mark c"
  shows "length (filter is_mark (expected_calls hooks h i c p)) = (if marked_pc p then 1 else 0)"
    and "p = HDone \<Longrightarrow> RegistryRemove i \<in> set (expected_calls hooks h i c p)"
  using assms by (cases p; simp add: marked_pc_def)+

subsection \<open>The order of the cleanup\<close>

text \<open>Claim C1, as the code has it. In every reachable trace, of the events of one
  handler goroutine: its terminal store call comes before its \<open>PostHandle\<close> and before
  its send to the semaphore; if the handler has hooks, \<open>PostHandle\<close> comes before the
  send; the send comes before \<open>wg.Done\<close>, and both come before the removal of the id
  from the registry, which is deferred inside the deferred function.\<close>

theorem cleanup_order:
  assumes "newWorker parent pd hk host opts = Inr w0" and "run acts w0 = Some w"
  shows "happens_before (by_handler h is_mark) (by_handler h is_post) (trace w)
    \<and> happens_before (by_handler h is_mark) (by_handler h is_release) (trace w)
    \<and> (withHooks w \<longrightarrow> happens_before (by_handler h is_post) (by_handler h is_release) (trace w))
    \<and> happens_before (by_handler h is_release) (by_handler h is_wg_done) (trace w)
    \<and> happens_before (by_handler h is_wg_done) (by_handler h is_remove) (trace w)
    \<and> happens_before (by_handler h is_release) (by_handler h is_remove) (trace w)"
proof -
  from reachable_calls_ok[OF assms] have c: "handler_calls_ok w h" by (simp add: calls_ok_def)
  show ?thesis
  proof (cases "h < length (handlers w)")
    case True
    with c obtain c where "is_mark c"
      "hcalls h (trace w) = expected_calls (withHooks w) h (hrecord (handlers w ! h)) c (hpc (handlers w ! h))"
      by (auto simp: handler_calls_ok_def)
    with expected_calls_order[OF this(1), of "withHooks w" h "hrecord (handlers w ! h)" "hpc (handlers w ! h)"]
    show ?thesis by (simp add: happens_before_hcalls)
  next
    case False
    with c have "hcalls h (trace w) = []" by (simp add: handler_calls_ok_def)
    then show ?thesis by (simp add: happens_before_hcalls)
  qed
qed

theorem cleanup_order_witness:
  "case started example_options one_job of
     None \<Rightarrow> False
   | Some w \<Rightarrow>
       withHooks w \<and> map snd (filter (by_handler 0 (\<lambda>e. \<not> is_log e)) (trace w))
          = [CallHandle (HandleCtx 0) 7, CallMarkComplete RootCtx 7, CallPostHandle RootCtx 7,
             SemRelease, WgDone, RegistryRemove 7]
       \<and> happens_before (by_handler 0 is_mark) (by_handler 0 is_post) (trace w)
       \<and> happens_before (by_handler 0 is_post) (by_handler 0 is_release) (trace w)
       \<and> happens_before (by_handler 0 is_release) (by_handler 0 is_remove) (trace w)"
proof -
  have e: "case started example_options one_job of
     None \<Rightarrow> False
   | Some w \<Rightarrow>
       withHooks w \<and> map snd (filter (by_handler 0 (\<lambda>e. \<not> is_log e)) (trace w))
          = [CallHandle (HandleCtx 0) 7, CallMarkComplete RootCtx 7, CallPostHandle RootCtx 7,
             SemRelease, WgDone, RegistryRemove 7]"
    by code_simp
  then obtain w where w: "started example_options one_job = Some w" and k: "withHooks w"
    and t: "map snd (filter (by_handler 0 (\<lambda>e. \<not> is_log e)) (trace w))
          = [CallHandle (HandleCtx 0) 7, CallMarkComplete RootCtx 7, CallPostHandle RootCtx 7,
             SemRelease, WgDone, RegistryRemove 7]"
    by (auto split: option.splits)
  from started_SomeD[OF w] obtain w0 where
    n: "newWorker Live True True ''host'' example_options = Inr w0" and r: "run one_job w0 = Some w"
    by blast
  from cleanup_order[OF n r, of 0] k
  have "happens_before (by_handler 0 is_mark) (by_handler 0 is_post) (trace w)
       \<and> happens_before (by_handler 0 is_post) (by_handler 0 is_release) (trace w)
       \<and> happens_before (by_handler 0 is_release) (by_handler 0 is_remove) (trace w)"
    by blast
  with w k t show ?thesis by simp
qed

theorem cleanup_order_counterexample:
  "(case started example_options one_job of
      None \<Rightarrow> False
    | Some w \<Rightarrow> \<not> happens_before (by_handler 0 is_remove) (by_handler 0 is_release) (trace w))
   \<and> (case started unlimited until_release of
         None \<Rightarrow> False
       | Some w \<Rightarrow> last (trace w) = (Handler 0, SemRelease) \<and> IDSet_Has (runningIDSet w) 7
           \<and> handlerSemaphore w = 1)"
  by code_simp

subsection \<open>Completion of a handler goroutine\<close>

lemma count_pos: "h < length hs \<Longrightarrow> Q (hpc (hs ! h)) \<Longrightarrow> 0 < length (filter (Q \<circ> hpc) hs)"
proof -
  assume "h < length hs" "Q (hpc (hs ! h))"
  then have "hs ! h \<in> set (filter (Q \<circ> hpc) hs)" by simp
  then show ?thesis by (rule length_pos_if_in_set)
qed

lemma handler_progress:
  assumes i: "invariant w" and h: "h < length (handlers w)"
    and a: "next_action h (hpc (handlers w ! h)) = Some a"
  shows "step a w \<noteq> None"
proof (cases "hpc (handlers w ! h)")
  case HCreated
  with i h have "main w = MPreHandle" by (auto simp: invariant_def created_last_def)
  with a HCreated show ?thesis by (auto simp: dequeueAndHandle_return_def Let_def)
next
  case HRelease
  from count_pos[OF h, of running_pc] HRelease have "0 < running_handlers w"
    by (simp add: running_handlers_def)
  with i have "handlerSemaphore w < capacity w"
    by (auto simp: invariant_def slots_accounted_def split: if_splits)
  with a h HRelease show ?thesis by (auto simp: get_handler_def)
next
  case HWgDone
  from count_pos[OF h, of wg_pc] HWgDone have "0 < wg_handlers w"
    by (simp add: wg_handlers_def)
  with i have "0 < wg w" by (simp add: invariant_def counters_ok_def)
  with a h HWgDone show ?thesis by (auto simp: get_handler_def)
next
  case HMark
  with h have "step (AMark h True None) w \<noteq> None" by (simp only: AMark_enabled simp_thms)
  with a HMark show ?thesis by simp
qed (use a h in \<open>auto simp: get_handler_def\<close>)

lemma map_of_filter_None: "map_of (filter (\<lambda>p. fst p \<noteq> i) xs) i = None"
  by (induction xs) auto

lemma remove_removes:
  "step (ARegistryRemove h) w = Some w' \<Longrightarrow> \<not> IDSet_Has (runningIDSet w') (hrecord (handlers w ! h))"
  by (auto simp: get_handler_def IDSet_Has_def IDSet_Remove_def map_of_filter_None split: if_splits)

lemma registration:
  assumes "main w = MRegister" and "handlerSemaphore w < capacity w"
  shows "\<exists>w'. step ARegister w = Some w'
    \<and> (if IDSet_Has (runningIDSet w) (cur_record w)
        then handlers w' = handlers w \<and> runningIDSet w' = runningIDSet w
          \<and> marks (trace w') = marks (trace w) \<and> \<not> holds_slot (main w')
          \<and> handlerSemaphore w' = handlerSemaphore w + 1
        else length (handlers w') = length (handlers w) + 1
          \<and> hrecord (last (handlers w')) = cur_record w \<and> hpc (last (handlers w')) = HCreated
          \<and> IDSet_Has (runningIDSet w') (cur_record w) \<and> main w' = MPreHandle)"
  using assms
  by (auto simp: IDSet_Add_def IDSet_Has_def dequeueAndHandle_return_def Let_def holds_slot_def
      map_add_def)

text \<open>Claim C3, as the code has it. At the registration of a dequeued record the code
  goes one of two ways. If the id is already in the registry, \<open>dequeueAndHandle\<close> returns
  \<open>ErrJobAlreadyExists\<close>: the slot goes back, no handler goroutine is started, no terminal
  store call is made and the registry stays as it is. Otherwise a handler goroutine is
  created for the record and the id is registered. Every handler goroutine makes no
  terminal store call before its position after \<open>Handle\<close> and exactly one from then on;
  when it has exited, its calls include the removal of its record's id; that removal
  leaves the registry without the id; and at every position the next step of the
  goroutine is possible, so it is never blocked on its way to the removal.\<close>

theorem cleanup_completeness:
  assumes "newWorker parent pd hk host opts = Inr w0" and "run acts w0 = Some w"
  shows "(main w = MRegister \<longrightarrow>
      (\<exists>w'. step ARegister w = Some w'
         \<and> (if IDSet_Has (runningIDSet w) (cur_record w)
             then handlers w' = handlers w \<and> runningIDSet w' = runningIDSet w
               \<and> marks (trace w') = marks (trace w) \<and> \<not> holds_slot (main w')
               \<and> handlerSemaphore w' = handlerSemaphore w + 1
             else length (handlers w') = length (handlers w) + 1
               \<and> hrecord (last (handlers w')) = cur_record w \<and> hpc (last (handlers w')) = HCreated
               \<and> IDSet_Has (runningIDSet w') (cur_record w) \<and> main w' = MPreHandle)))
    \<and> (\<forall>h < length (handlers w).
          length (filter is_mark (hcalls h (trace w)))
            = (if marked_pc (hpc (handlers w ! h)) then 1 else 0)
          \<and> (hpc (handlers w ! h) = HDone \<longrightarrow>
                RegistryRemove (hrecord (handlers w ! h)) \<in> set (hcalls h (trace w)))
          \<and> (\<forall>a. next_action h (hpc (handlers w ! h)) = Some a \<longrightarrow> step a w \<noteq> None))
    \<and> (\<forall>h w'. step (ARegistryRemove h) w = Some w' \<longrightarrow>
          \<not> IDSet_Has (runningIDSet w') (hrecord (handlers w ! h)))"
proof -
  note i = reachable_invariant[OF assms]
  have 1: "\<exists>w'. step ARegister w = Some w'
         \<and> (if IDSet_Has (runningIDSet w) (cur_record w)
             then handlers w' = handlers w \<and> runningIDSet w' = runningIDSet w
               \<and> marks (trace w') = marks (trace w) \<and> \<not> holds_slot (main w')
               \<and> handlerSemaphore w' = handlerSemaphore w + 1
             else length (handlers w') = length (handlers w) + 1
               \<and> hrecord (last (handlers w')) = cur_record w \<and> hpc (last (handlers w')) = HCreated
               \<and> IDSet_Has (runningIDSet w') (cur_record w) \<and> main w' = MPreHandle)"
    if m: "main w = MRegister"
  proof -
    from i m have "handlerSemaphore w < capacity w"
      by (simp add: invariant_def slots_accounted_def holds_slot_def)
    from registration[OF m this] show ?thesis .
  qed
  have 2: "length (filter is_mark (hcalls h (trace w)))
            = (if marked_pc (hpc (handlers w ! h)) then 1 else 0)
          \<and> (hpc (handlers w ! h) = HDone \<longrightarrow>
                RegistryRemove (hrecord (handlers w ! h)) \<in> set (hcalls h (trace w)))
          \<and> (\<forall>a. next_action h (hpc (handlers w ! h)) = Some a \<longrightarrow> step a w \<noteq> None)"
    if h: "h < length (handlers w)" for h
  proof -
    from reachable_calls_ok[OF assms] have "handler_calls_ok w h" by (simp add: calls_ok_def)
    with h obtain c where c: "is_mark c"
      "hcalls h (trace w)
         = expected_calls (withHooks w) h (hrecord (handlers w ! h)) c (hpc (handlers w ! h))"
      by (auto simp: handler_calls_ok_def)
    from expected_calls_marks[OF c(1)] handler_progress[OF i h]
    show ?thesis unfolding c(2) by blast
  qed
  from 1 2 remove_removes show ?thesis by blast
qed

theorem cleanup_completeness_witness:
  "(case started unlimited before_duplicate of
      None \<Rightarrow> False
    | Some w \<Rightarrow>
        main w = MRegister \<and> IDSet_Has (runningIDSet w) (cur_record w)
        \<and> (case step ARegister w of
              None \<Rightarrow> False
            | Some w' \<Rightarrow> handlers w' = handlers w \<and> runningIDSet w' = runningIDSet w
                \<and> marks (trace w') = marks (trace w)))
   \<and> (case started unlimited duplicate_dequeue of
         None \<Rightarrow> False
       | Some w \<Rightarrow>
           map hpc (handlers w) = [HDone] \<and> length (filter is_mark (hcalls 0 (trace w))) = 1
           \<and> RegistryRemove 7 \<in> set (hcalls 0 (trace w)))"
proof -
  have e: "(case started unlimited before_duplicate of
      None \<Rightarrow> False
    | Some w \<Rightarrow> main w = MRegister \<and> IDSet_Has (runningIDSet w) (cur_record w))
   \<and> (case started unlimited duplicate_dequeue of
         None \<Rightarrow> False
       | Some w \<Rightarrow> length (handlers w) = 1 \<and> hpc (handlers w ! 0) = HDone \<and> hrecord (handlers w ! 0) = 7)"
    by code_simp
  then obtain w v where w: "started unlimited before_duplicate = Some w"
    and m: "main w = MRegister" "IDSet_Has (runningIDSet w) (cur_record w)"
    and v: "started unlimited duplicate_dequeue = Some v"
    and d: "length (handlers v) = 1" "hpc (handlers v ! 0) = HDone" "hrecord (handlers v ! 0) = 7"
    by (auto split: option.splits)
  from started_SomeD[OF w] obtain w0 where
    n: "newWorker Live True True ''host'' unlimited = Inr w0" and r: "run before_duplicate w0 = Some w"
    by blast
  from started_SomeD[OF v] obtain v0 where
    n': "newWorker Live True True ''host'' unlimited = Inr v0" and r': "run duplicate_dequeue v0 = Some v"
    by blast
  from cleanup_completeness[OF n r] m obtain w' where
    "step ARegister w = Some w'" "handlers w' = handlers w \<and> runningIDSet w' = runningIDSet w
                \<and> marks (trace w') = marks (trace w)"
    by auto
  with w m have 1: "case started unlimited before_duplicate of
      None \<Rightarrow> False
    | Some w \<Rightarrow>
        main w = MRegister \<and> IDSet_Has (runningIDSet w) (cur_record w)
        \<and> (case step ARegister w of
              None \<Rightarrow> False
            | Some w' \<Rightarrow> handlers w' = handlers w \<and> runningIDSet w' = runningIDSet w
                \<and> marks (trace w') = marks (trace w))"
    by (simp del: step.simps)
  from cleanup_completeness[OF n' r'] d
  have "length (filter is_mark (hcalls 0 (trace v))) = 1
           \<and> RegistryRemove 7 \<in> set (hcalls 0 (trace v))"
    by (auto simp: marked_pc_def)
  moreover from d have "map hpc (handlers v) = [HDone]"
    by (cases "handlers v") auto
  ultimately have 2: "case started unlimited duplicate_dequeue of
         None \<Rightarrow> False
       | Some w \<Rightarrow>
           map hpc (handlers w) = [HDone] \<and> length (filter is_mark (hcalls 0 (trace w))) = 1
           \<and> RegistryRemove 7 \<in> set (hcalls 0 (trace w))"
    using v by simp
  from 1 2 show ?thesis by blast
qed

theorem cleanup_completeness_counterexample:
  "case started unlimited duplicate_dequeue of
     None \<Rightarrow> False
   | Some w \<Rightarrow>
       finished w \<and> runningIDSet w = [] \<and> map hpc (handlers w) = [HDone]
       \<and> trace w ! 13 = (MainLoop, CallDequeue RootCtx ''host'' None 7 True None)
       \<and> trace w ! 14 = (MainLoop, RegistryAdd 7 False)
       \<and> marks (drop 13 (trace w)) = []
       \<and> marks (trace w) = [CallMarkErrored RootCtx 7 ''boom'']"
  by code_simp

end
